theory Spec2Isabelle
  imports Complex_Main "HOL-Library.Sublist" "HOL-Library.List_Lexorder"
begin

section \<open>Python strings and the library data the scraper relies on\<close>

text \<open>
  A Python \<open>str\<close> is a sequence of Unicode code points and is modelled as a list of
  natural numbers; \<open>bytes\<close> is a list of numbers below 256.  String literals of the
  source are written \<open>ustr ''...''\<close>.  The library functions are modelled after
  CPython 3.11 on a POSIX system (\<open>os.path\<close> is \<open>posixpath\<close>).

  Three pieces of library data are too large to write down and are taken as
  parameters, collected in the record \<open>pylib\<close>: \<open>str.lower\<close> on strings that contain a
  non-ASCII code point, \<open>unicodedata.normalize('NFKC', _)\<close>, and the test whether
  \<open>ipaddress.ip_address\<close> accepts a string as an IPv6 address.  Every theorem below holds
  for every value of these parameters.
\<close>

type_synonym str = "nat list"
type_synonym bytes = "nat list"

definition ustr :: "string \<Rightarrow> str" where
  "ustr s = map of_char s"

record pylib =
  lib_lower :: "str \<Rightarrow> str"
  lib_nfkc :: "str \<Rightarrow> str"
  lib_ipv6 :: "str \<Rightarrow> bool"

text \<open>\<open>str.isspace\<close> of one code point; the regular expression class \<open>\s\<close> is the same set.\<close>

definition isspace :: "nat \<Rightarrow> bool" where
  "isspace c \<longleftrightarrow>
     (9 \<le> c \<and> c \<le> 13) \<or> (28 \<le> c \<and> c \<le> 32) \<or> c = 133 \<or> c = 160 \<or> c = 5760 \<or>
     (8192 \<le> c \<and> c \<le> 8202) \<or> c = 8232 \<or> c = 8233 \<or> c = 8239 \<or> c = 8287 \<or> c = 12288"

text \<open>\<open>s.strip()\<close> and \<open>s.strip(chars)\<close>: the predicate says which code points are stripped.\<close>

definition str_lstrip :: "(nat \<Rightarrow> bool) \<Rightarrow> str \<Rightarrow> str" where
  "str_lstrip P s = dropWhile P s"

definition str_rstrip :: "(nat \<Rightarrow> bool) \<Rightarrow> str \<Rightarrow> str" where
  "str_rstrip P s = rev (dropWhile P (rev s))"

definition str_strip :: "(nat \<Rightarrow> bool) \<Rightarrow> str \<Rightarrow> str" where
  "str_strip P s = str_rstrip P (str_lstrip P s)"

definition ascii_lower :: "nat \<Rightarrow> nat" where
  "ascii_lower c = (if 65 \<le> c \<and> c \<le> 90 then c + 32 else c)"

definition isascii_str :: "str \<Rightarrow> bool" where
  "isascii_str s = list_all (\<lambda>c. c < 128) s"

text \<open>\<open>s.lower()\<close>: on an ASCII string it maps \<open>A-Z\<close> to \<open>a-z\<close>; otherwise it is library data.\<close>

definition str_lower :: "pylib \<Rightarrow> str \<Rightarrow> str" where
  "str_lower U s = (if isascii_str s then map ascii_lower s else lib_lower U s)"

text \<open>\<open>xs[:n]\<close> for a Python integer \<open>n\<close>: a negative \<open>n\<close> counts from the end.\<close>

definition py_slice_to :: "int \<Rightarrow> 'a list \<Rightarrow> 'a list" where
  "py_slice_to n xs = (if 0 \<le> n then take (nat n) xs else take (nat (int (length xs) + n)) xs)"

text \<open>
  \<open>re.sub(r"C+", rep, s)\<close> for a character class \<open>C\<close>: every maximal run of code points
  of the class is replaced by \<open>rep\<close>, scanning from the left.
\<close>

function sub_runs :: "(nat \<Rightarrow> bool) \<Rightarrow> str \<Rightarrow> str \<Rightarrow> str" where
  "sub_runs P rep [] = []"
| "sub_runs P rep (c # cs) =
     (if P c then rep @ sub_runs P rep (dropWhile P cs) else c # sub_runs P rep cs)"
  by pat_completeness auto
termination
  by (relation "measure (\<lambda>(P, rep, s). length s)")
     (auto simp: length_dropWhile_le less_Suc_eq_le)

text \<open>Exceptions: the two classes \<open>urllib\<close> raises here, the \<open>OverflowError\<close> of
  a number out of range, and one for failures of the network and the operating system,
  with the message.\<close>

datatype exn = ValueError string | UnicodeEncodeError | OverflowError string | EnvError string

subsection \<open>Small string operations\<close>

definition startswith :: "str \<Rightarrow> str \<Rightarrow> bool" where
  "startswith p s = (take (length p) s = p)"

text \<open>\<open>s.split(c)\<close> for a one-character separator: never the empty list.\<close>

fun split_on :: "nat \<Rightarrow> str \<Rightarrow> str list" where
  "split_on c [] = [[]]"
| "split_on c (x # xs) =
     (if x = c then [] # split_on c xs
      else (case split_on c xs of
              part # parts \<Rightarrow> (x # part) # parts
            | [] \<Rightarrow> [[x]]))"

text \<open>\<open>sep.join(parts)\<close>.\<close>

fun join_with :: "str \<Rightarrow> str list \<Rightarrow> str" where
  "join_with sep [] = []"
| "join_with sep [x] = x"
| "join_with sep (x # y # r) = x @ sep @ join_with sep (y # r)"

text \<open>The part of \<open>s\<close> before the first \<open>c\<close>, and the part after it (\<open>s.split(c, 1)\<close>
  when \<open>c\<close> occurs in \<open>s\<close>).\<close>

definition before_first :: "nat \<Rightarrow> str \<Rightarrow> str" where
  "before_first c s = takeWhile (\<lambda>x. x \<noteq> c) s"

definition after_first :: "nat \<Rightarrow> str \<Rightarrow> str" where
  "after_first c s = drop 1 (dropWhile (\<lambda>x. x \<noteq> c) s)"

text \<open>\<open>s.rfind(c)\<close>: the index of the last \<open>c\<close>, or \<open>-1\<close>.\<close>

definition rfind :: "nat \<Rightarrow> str \<Rightarrow> int" where
  "rfind c s =
     (if c \<in> set s then int (length s) - 1 - int (length (takeWhile (\<lambda>x. x \<noteq> c) (rev s)))
      else - 1)"

subsection \<open>UTF-8\<close>

definition is_surrogate :: "nat \<Rightarrow> bool" where
  "is_surrogate c \<longleftrightarrow> 55296 \<le> c \<and> c \<le> 57343"

definition utf8_enc :: "nat \<Rightarrow> bytes" where
  "utf8_enc c =
     (if c < 128 then [c]
      else if c < 2048 then [192 + c div 64, 128 + c mod 64]
      else if c < 65536 then [224 + c div 4096, 128 + c div 64 mod 64, 128 + c mod 64]
      else [240 + c div 262144, 128 + c div 4096 mod 64, 128 + c div 64 mod 64, 128 + c mod 64])"

text \<open>A Unicode scalar value: what a code point of a well-formed string is, and what
  UTF-8 can encode.\<close>

definition scalar :: "nat \<Rightarrow> bool" where
  "scalar c \<longleftrightarrow> c < 1114112 \<and> \<not> is_surrogate c"

text \<open>\<open>s.encode('utf-8')\<close> with \<open>errors='strict'\<close>: a surrogate raises.\<close>

definition utf8_encode :: "str \<Rightarrow> exn + bytes" where
  "utf8_encode s =
     (if list_ex is_surrogate s then Inl UnicodeEncodeError else Inr (concat (map utf8_enc s)))"

definition cont :: "nat \<Rightarrow> bool" where
  "cont b \<longleftrightarrow> 128 \<le> b \<and> b < 192"

text \<open>The second byte a lead byte of a three- or four-byte sequence accepts.\<close>

definition second_ok :: "nat \<Rightarrow> nat \<Rightarrow> bool" where
  "second_ok b b1 \<longleftrightarrow>
     (if b = 224 then 160 \<le> b1 \<and> b1 < 192
      else if b = 237 then 128 \<le> b1 \<and> b1 < 160
      else if b = 240 then 144 \<le> b1 \<and> b1 < 192
      else if b = 244 then 128 \<le> b1 \<and> b1 < 144
      else cont b1)"

text \<open>
  One step of \<open>bs.decode('utf-8', errors='replace')\<close> at lead byte \<open>b\<close> followed by
  \<open>bs\<close>: the code point produced and how many of the following bytes it consumes.
  Every maximal ill-formed prefix of a sequence becomes one U+FFFD (65533) and
  decoding resumes right after it.
\<close>

definition utf8_step :: "nat \<Rightarrow> bytes \<Rightarrow> nat \<times> nat" where
  "utf8_step b bs =
     (if b < 128 then (b, 0)
      else if 194 \<le> b \<and> b \<le> 223 then
        (case bs of
           b1 # r1 \<Rightarrow> if cont b1 then ((b - 192) * 64 + (b1 - 128), 1) else (65533, 0)
         | [] \<Rightarrow> (65533, 0))
      else if 224 \<le> b \<and> b \<le> 239 then
        (case bs of
           b1 # b2 # r2 \<Rightarrow>
             if \<not> second_ok b b1 then (65533, 0)
             else if cont b2 then ((b - 224) * 4096 + (b1 - 128) * 64 + (b2 - 128), 2)
             else (65533, 1)
         | [b1] \<Rightarrow> if second_ok b b1 then (65533, 1) else (65533, 0)
         | [] \<Rightarrow> (65533, 0))
      else if 240 \<le> b \<and> b \<le> 244 then
        (case bs of
           b1 # b2 # b3 # r3 \<Rightarrow>
             if \<not> second_ok b b1 then (65533, 0)
             else if \<not> cont b2 then (65533, 1)
             else if cont b3
               then ((b - 240) * 262144 + (b1 - 128) * 4096 + (b2 - 128) * 64 + (b3 - 128), 3)
             else (65533, 2)
         | [b1, b2] \<Rightarrow>
             if \<not> second_ok b b1 then (65533, 0)
             else if cont b2 then (65533, 2) else (65533, 1)
         | [b1] \<Rightarrow> if second_ok b b1 then (65533, 1) else (65533, 0)
         | [] \<Rightarrow> (65533, 0))
      else (65533, 0))"

fun utf8_decode :: "bytes \<Rightarrow> str" where
  "utf8_decode [] = []"
| "utf8_decode (b # bs) = (case utf8_step b bs of (c, n) \<Rightarrow> c # utf8_decode (drop n bs))"


subsection \<open>Percent-encoding: \<open>urllib.parse.quote\<close> and \<open>unquote\<close>\<close>

definition is_digit :: "nat \<Rightarrow> bool" where
  "is_digit c \<longleftrightarrow> 48 \<le> c \<and> c \<le> 57"

definition is_ascii_alpha :: "nat \<Rightarrow> bool" where
  "is_ascii_alpha c \<longleftrightarrow> (65 \<le> c \<and> c \<le> 90) \<or> (97 \<le> c \<and> c \<le> 122)"

text \<open>The value of a hexadecimal digit (\<open>_hexdig\<close> has both cases), if it is one.\<close>

definition hex_val :: "nat \<Rightarrow> nat option" where
  "hex_val c =
     (if 48 \<le> c \<and> c \<le> 57 then Some (c - 48)
      else if 65 \<le> c \<and> c \<le> 70 then Some (c - 55)
      else if 97 \<le> c \<and> c \<le> 102 then Some (c - 87)
      else None)"

text \<open>The upper-case hexadecimal digit of a value below 16 (\<open>'%{:02X}'.format(b)\<close>).\<close>

definition hex_digit :: "nat \<Rightarrow> nat" where
  "hex_digit v = (if v < 10 then 48 + v else 55 + v)"

text \<open>
  \<open>unquote_to_bytes\<close> on an ASCII string (its UTF-8 encoding is the string itself): a
  \<open>%\<close> followed by two hexadecimal digits becomes that byte, any other \<open>%\<close> stays.
\<close>

fun unquote_to_bytes :: "str \<Rightarrow> bytes" where
  "unquote_to_bytes (c # h1 # h2 # r) =
     (if c = 37 \<and> hex_val h1 \<noteq> None \<and> hex_val h2 \<noteq> None
      then (16 * the (hex_val h1) + the (hex_val h2)) # unquote_to_bytes r
      else c # unquote_to_bytes (h1 # h2 # r))"
| "unquote_to_bytes (c # r) = c # unquote_to_bytes r"
| "unquote_to_bytes [] = []"

text \<open>
  The loop of \<open>unquote\<close> over \<open>_asciire.split(string)\<close>: every maximal run of ASCII code
  points is unquoted to bytes and decoded, the code points between the runs are kept.
\<close>

function unquote_runs :: "str \<Rightarrow> str" where
  "unquote_runs [] = []"
| "unquote_runs (c # cs) =
     (if c < 128
      then utf8_decode (unquote_to_bytes (c # takeWhile (\<lambda>x. x < 128) cs))
             @ unquote_runs (dropWhile (\<lambda>x. x < 128) cs)
      else c # unquote_runs cs)"
  by pat_completeness auto
termination
  by (relation "measure length") (auto simp: length_dropWhile_le less_Suc_eq_le)

definition unquote :: "str \<Rightarrow> str" where
  "unquote s = (if 37 \<notin> set s then s else unquote_runs s)"

definition unquote_plus :: "str \<Rightarrow> str" where
  "unquote_plus s = unquote (map (\<lambda>c. if c = 43 then 32 else c) s)"

definition always_safe :: "nat \<Rightarrow> bool" where
  "always_safe b \<longleftrightarrow> is_ascii_alpha b \<or> is_digit b \<or> b = 95 \<or> b = 46 \<or> b = 45 \<or> b = 126"

text \<open>The \<open>_Quoter\<close>: a byte of the safe set stays, any other becomes \<open>%XX\<close>.  Of the
  \<open>safe\<close> argument only its ASCII characters count.\<close>

definition quote_byte :: "str \<Rightarrow> nat \<Rightarrow> str" where
  "quote_byte safe b =
     (if always_safe b \<or> (b < 128 \<and> b \<in> set safe) then [b]
      else [37, hex_digit (b div 16), hex_digit (b mod 16)])"

definition quote_from_bytes :: "str \<Rightarrow> bytes \<Rightarrow> str" where
  "quote_from_bytes safe bs = concat (map (quote_byte safe) bs)"

definition quote :: "str \<Rightarrow> str \<Rightarrow> exn + str" where
  "quote safe s =
     (if s = [] then Inr []
      else case utf8_encode s of
             Inl e \<Rightarrow> Inl e
           | Inr bs \<Rightarrow> Inr (quote_from_bytes safe bs))"

definition quote_plus :: "str \<Rightarrow> str \<Rightarrow> exn + str" where
  "quote_plus safe s =
     (if 32 \<notin> set s then quote safe s
      else case quote (safe @ [32]) s of
             Inl e \<Rightarrow> Inl e
           | Inr q \<Rightarrow> Inr (map (\<lambda>c. if c = 32 then 43 else c) q))"

subsection \<open>\<open>urllib.parse\<close>: splitting and joining URLs\<close>

record split_result =
  scheme :: str
  netloc :: str
  path :: str
  query :: str
  fragment :: str

record parse_result = split_result +
  params :: str

definition uses_relative :: "str list" where
  "uses_relative = map ustr
     ['''', ''ftp'', ''http'', ''gopher'', ''nntp'', ''imap'', ''wais'', ''file'', ''https'',
      ''shttp'', ''mms'', ''prospero'', ''rtsp'', ''rtsps'', ''rtspu'', ''sftp'', ''svn'',
      ''svn+ssh'', ''ws'', ''wss'']"

definition uses_netloc :: "str list" where
  "uses_netloc = map ustr
     ['''', ''ftp'', ''http'', ''gopher'', ''nntp'', ''telnet'', ''imap'', ''wais'', ''file'',
      ''mms'', ''https'', ''shttp'', ''snews'', ''prospero'', ''rtsp'', ''rtsps'', ''rtspu'',
      ''rsync'', ''svn'', ''svn+ssh'', ''sftp'', ''nfs'', ''git'', ''git+ssh'', ''ws'', ''wss'']"

definition uses_params :: "str list" where
  "uses_params = map ustr
     ['''', ''ftp'', ''hdl'', ''prospero'', ''http'', ''imap'', ''https'', ''shttp'', ''rtsp'',
      ''rtsps'', ''rtspu'', ''sip'', ''sips'', ''mms'', ''sftp'', ''tel'']"

definition scheme_char :: "nat \<Rightarrow> bool" where
  "scheme_char c \<longleftrightarrow> is_ascii_alpha c \<or> is_digit c \<or> c = 43 \<or> c = 45 \<or> c = 46"

text \<open>\<open>_WHATWG_C0_CONTROL_OR_SPACE\<close> and \<open>_UNSAFE_URL_BYTES_TO_REMOVE\<close>.\<close>

definition c0_or_space :: "nat \<Rightarrow> bool" where
  "c0_or_space c \<longleftrightarrow> c \<le> 32"

definition unsafe_url_byte :: "nat \<Rightarrow> bool" where
  "unsafe_url_byte c \<longleftrightarrow> c = 9 \<or> c = 13 \<or> c = 10"

text \<open>
  The scheme detection of \<open>urlsplit\<close>: with \<open>i = url.find(':')\<close>, when \<open>i > 0\<close>, the
  first character is an ASCII letter and \<open>url[:i]\<close> has scheme characters only, the
  scheme is \<open>url[:i].lower()\<close> and the URL goes on after the colon.
\<close>

definition split_scheme :: "str \<Rightarrow> str \<Rightarrow> str \<times> str" where
  "split_scheme dflt url =
     (let pre = before_first 58 url in
      if 58 \<in> set url \<and> pre \<noteq> [] \<and> is_ascii_alpha (hd url) \<and> list_all scheme_char pre
      then (map ascii_lower pre, after_first 58 url)
      else (dflt, url))"

definition netloc_delim :: "nat \<Rightarrow> bool" where
  "netloc_delim c \<longleftrightarrow> c = 47 \<or> c = 63 \<or> c = 35"

text \<open>\<open>_splitnetloc(url, 2)\<close>: the authority runs from index 2 to the first of \<open>/?#\<close>.\<close>

definition splitnetloc :: "str \<Rightarrow> str \<times> str" where
  "splitnetloc url =
     (takeWhile (\<lambda>c. \<not> netloc_delim c) (drop 2 url),
      dropWhile (\<lambda>c. \<not> netloc_delim c) (drop 2 url))"

text \<open>
  \<open>_check_bracketed_host\<close>: a host starting with \<open>v\<close> must match
  \<open>\Av[a-fA-F0-9]+\..+\Z\<close>; any other must be an IPv6 address for \<open>ipaddress\<close>.
  (Line breaks were removed from the URL before, so \<open>.\<close> matches every character left.)
\<close>

definition check_bracketed_host :: "pylib \<Rightarrow> str \<Rightarrow> bool" where
  "check_bracketed_host U h =
     (if startswith (ustr ''v'') h then
        (let digits = takeWhile (\<lambda>c. hex_val c \<noteq> None) (drop 1 h);
             rest = dropWhile (\<lambda>c. hex_val c \<noteq> None) (drop 1 h)
         in digits \<noteq> [] \<and> startswith (ustr ''.'') rest \<and> drop 1 rest \<noteq> [])
      else lib_ipv6 U h)"

text \<open>
  \<open>_checknetloc\<close>: a non-ASCII authority whose NFKC form (with \<open>@:#?\<close> taken out
  first) differs and contains one of \<open>/?#@:\<close> is refused.
\<close>

definition checknetloc :: "pylib \<Rightarrow> str \<Rightarrow> bool" where
  "checknetloc U n =
     (if n = [] \<or> isascii_str n then True
      else
        (let m = filter (\<lambda>c. c \<noteq> 64 \<and> c \<noteq> 58 \<and> c \<noteq> 35 \<and> c \<noteq> 63) n;
             m2 = lib_nfkc U m
         in m = m2 \<or> \<not> list_ex (\<lambda>c. c = 47 \<or> c = 63 \<or> c = 35 \<or> c = 64 \<or> c = 58) m2))"

definition urlsplit :: "pylib \<Rightarrow> str \<Rightarrow> str \<Rightarrow> exn + split_result" where
  "urlsplit U url0 scheme0 =
     (let url1 = filter (\<lambda>c. \<not> unsafe_url_byte c) (str_lstrip c0_or_space url0);
          dflt = filter (\<lambda>c. \<not> unsafe_url_byte c) (str_strip c0_or_space scheme0);
          (sch, url2) = split_scheme dflt url1;
          (net, url3) = (if take 2 url2 = ustr ''//'' then splitnetloc url2 else ([], url2))
      in
        if take 2 url2 = ustr ''//'' \<and> ((91 \<in> set net) \<noteq> (93 \<in> set net))
          then Inl (ValueError ''Invalid IPv6 URL'')
        else if take 2 url2 = ustr ''//'' \<and> 91 \<in> set net \<and> 93 \<in> set net \<and>
                \<not> check_bracketed_host U (before_first 93 (after_first 91 net))
          then Inl (ValueError ''invalid bracketed host'')
        else
          (let frag = (if 35 \<in> set url3 then after_first 35 url3 else []);
               url4 = (if 35 \<in> set url3 then before_first 35 url3 else url3);
               qry = (if 63 \<in> set url4 then after_first 63 url4 else []);
               url5 = (if 63 \<in> set url4 then before_first 63 url4 else url4)
           in
             if \<not> checknetloc U net
               then Inl (ValueError ''netloc contains invalid characters under NFKC normalization'')
             else Inr \<lparr>scheme = sch, netloc = net, path = url5, query = qry, fragment = frag\<rparr>))"

text \<open>
  \<open>_splitparams\<close>, called when the path contains a \<open>;\<close>: the parameters start at the
  first \<open>;\<close> of the last path segment (of the whole path when it has no \<open>/\<close>).
\<close>

definition splitparams :: "str \<Rightarrow> str \<times> str" where
  "splitparams url =
     (if 47 \<in> set url then
        (let k = nat (rfind 47 url); hd_part = take k url; seg = drop k url
         in if 59 \<in> set seg
            then (hd_part @ before_first 59 seg, after_first 59 seg)
            else (url, []))
      else (before_first 59 url, after_first 59 url))"

definition urlparse :: "pylib \<Rightarrow> str \<Rightarrow> str \<Rightarrow> exn + parse_result" where
  "urlparse U url scheme0 =
     (case urlsplit U url scheme0 of
        Inl e \<Rightarrow> Inl e
      | Inr r \<Rightarrow>
          (let (url', prm) =
                 (if scheme r \<in> set uses_params \<and> 59 \<in> set (path r)
                  then splitparams (path r) else (path r, []))
           in Inr \<lparr>scheme = scheme r, netloc = netloc r, path = url', query = query r,
                    fragment = fragment r, params = prm\<rparr>))"

definition urlunsplit :: "str \<Rightarrow> str \<Rightarrow> str \<Rightarrow> str \<Rightarrow> str \<Rightarrow> str" where
  "urlunsplit sch net url qry frag =
     (let url1 =
            (if net \<noteq> [] \<or> (sch \<noteq> [] \<and> sch \<in> set uses_netloc) \<or> take 2 url = ustr ''//''
             then ustr ''//'' @ net @ (if url \<noteq> [] \<and> take 1 url \<noteq> ustr ''/'' then ustr ''/'' @ url else url)
             else url);
          url2 = (if sch \<noteq> [] then sch @ ustr '':'' @ url1 else url1);
          url3 = (if qry \<noteq> [] then url2 @ ustr ''?'' @ qry else url2)
      in if frag \<noteq> [] then url3 @ ustr ''#'' @ frag else url3)"

definition urlunparse :: "str \<Rightarrow> str \<Rightarrow> str \<Rightarrow> str \<Rightarrow> str \<Rightarrow> str \<Rightarrow> str" where
  "urlunparse sch net url prm qry frag =
     urlunsplit sch net (if prm \<noteq> [] then url @ ustr '';'' @ prm else url) qry frag"

text \<open>The loop of \<open>urljoin\<close> that resolves \<open>.\<close> and \<open>..\<close> segments; \<open>acc\<close> is
  \<open>resolved_path\<close>.\<close>

fun resolve_segments :: "str list \<Rightarrow> str list \<Rightarrow> str list" where
  "resolve_segments acc [] = acc"
| "resolve_segments acc (seg # segs) =
     (if seg = ustr ''..'' then resolve_segments (butlast acc) segs
      else if seg = ustr ''.'' then resolve_segments acc segs
      else resolve_segments (acc @ [seg]) segs)"

text \<open>\<open>segments[1:-1] = filter(None, segments[1:-1])\<close>.\<close>

definition drop_empty_inner :: "str list \<Rightarrow> str list" where
  "drop_empty_inner segs =
     (if length segs < 2 then segs
      else hd segs # filter (\<lambda>s. s \<noteq> []) (butlast (tl segs)) @ [last segs])"

definition urljoin :: "pylib \<Rightarrow> str \<Rightarrow> str \<Rightarrow> exn + str" where
  "urljoin U base url =
     (if base = [] then Inr url
      else if url = [] then Inr base
      else
        case urlparse U base [] of
          Inl e \<Rightarrow> Inl e
        | Inr b \<Rightarrow>
            (case urlparse U url (scheme b) of
               Inl e \<Rightarrow> Inl e
             | Inr u \<Rightarrow>
                 if scheme u \<noteq> scheme b \<or> scheme u \<notin> set uses_relative then Inr url
                 else if scheme u \<in> set uses_netloc \<and> netloc u \<noteq> [] then
                   Inr (urlunparse (scheme u) (netloc u) (path u) (params u) (query u) (fragment u))
                 else
                   (let net = (if scheme u \<in> set uses_netloc then netloc b else netloc u) in
                    if path u = [] \<and> params u = [] then
                      Inr (urlunparse (scheme u) net (path b) (params b)
                             (if query u = [] then query b else query u) (fragment u))
                    else
                      (let base_parts0 = split_on 47 (path b);
                           base_parts = (if last base_parts0 \<noteq> [] then butlast base_parts0
                                         else base_parts0);
                           segments =
                             (if take 1 (path u) = ustr ''/'' then split_on 47 (path u)
                              else drop_empty_inner (base_parts @ split_on 47 (path u)));
                           resolved0 = resolve_segments [] segments;
                           resolved = (if last segments = ustr ''.'' \<or> last segments = ustr ''..''
                                       then resolved0 @ [[]] else resolved0);
                           joined = join_with (ustr ''/'') resolved
                       in Inr (urlunparse (scheme u) net (if joined = [] then ustr ''/'' else joined)
                                 (params u) (query u) (fragment u))))))"

subsection \<open>\<open>os.path\<close> (POSIX)\<close>

definition basename :: "str \<Rightarrow> str" where
  "basename p = drop (nat (rfind 47 p + 1)) p"

text \<open>\<open>splitext\<close>: the extension starts at the last dot of the last component, unless only
  dots stand before it there.\<close>

definition splitext :: "str \<Rightarrow> str \<times> str" where
  "splitext p =
     (let sepIndex = rfind 47 p; dotIndex = rfind 46 p in
      if dotIndex > sepIndex \<and>
         list_ex (\<lambda>c. c \<noteq> 46) (take (nat (dotIndex - (sepIndex + 1))) (drop (nat (sepIndex + 1)) p))
      then (take (nat dotIndex) p, drop (nat dotIndex) p)
      else (p, []))"

subsection \<open>The two regular expressions\<close>

text \<open>
  Under \<open>re.IGNORECASE\<close> a pattern letter matches its two ASCII cases; the letter \<open>i\<close>
  also matches U+0130 and U+0131.
\<close>

definition ci_letter :: "nat \<Rightarrow> nat \<Rightarrow> bool" where
  "ci_letter p c \<longleftrightarrow> c = p \<or> c + 32 = p \<or> (p = 105 \<and> (c = 304 \<or> c = 305))"

definition quote_mark :: "nat \<Rightarrow> bool" where
  "quote_mark c \<longleftrightarrow> c = 34 \<or> c = 39"

text \<open>
  A match of \<open>href=["\']([^"\']+)["\']\<close> at the start of \<open>s\<close>: the group and what
  follows the match.  The group is the longest run without a quote mark; it must not
  be empty and a quote mark must follow it.
\<close>

definition match_href :: "str \<Rightarrow> (str \<times> str) option" where
  "match_href s =
     (case s of
        h # r # e # f # eq # q # rest \<Rightarrow>
          if ci_letter 104 h \<and> ci_letter 114 r \<and> ci_letter 101 e \<and> ci_letter 102 f \<and>
             eq = 61 \<and> quote_mark q \<and>
             takeWhile (\<lambda>c. \<not> quote_mark c) rest \<noteq> [] \<and>
             dropWhile (\<lambda>c. \<not> quote_mark c) rest \<noteq> []
          then Some (takeWhile (\<lambda>c. \<not> quote_mark c) rest,
                     drop 1 (dropWhile (\<lambda>c. \<not> quote_mark c) rest))
          else None
      | _ \<Rightarrow> None)"

lemma match_href_shorter: "match_href s = Some (g, rest) \<Longrightarrow> length rest < length s"
proof -
  have le: "length (dropWhile P xs) \<le> length xs" for P and xs :: str
    by (rule length_dropWhile_le)
  assume "match_href s = Some (g, rest)"
  then show ?thesis
    using le [of "\<lambda>c. \<not> quote_mark c" "drop 6 s"]
    by (auto simp: match_href_def split: list.splits if_splits)
qed

text \<open>\<open>re.findall\<close> of that pattern: the groups of the successive non-overlapping
  matches, found from the left.\<close>

function findall_href :: "str \<Rightarrow> str list" where
  "findall_href [] = []"
| "findall_href (c # cs) =
     (case match_href (c # cs) of
        Some (g, rest) \<Rightarrow> g # findall_href rest
      | None \<Rightarrow> findall_href cs)"
  by pat_completeness auto
termination
  by (relation "measure length") (auto dest: match_href_shorter)

text \<open>\<open>$\<close> without \<open>re.MULTILINE\<close>: at the end, or before a line break that ends the string.\<close>

definition at_end :: "str \<Rightarrow> bool" where
  "at_end s \<longleftrightarrow> s = [] \<or> s = [10]"

text \<open>What may follow the dot in \<open>\.(mid|midi)(\?|$)\<close>.\<close>

definition midi_suffix :: "str \<Rightarrow> bool" where
  "midi_suffix s =
     (case s of
        m # i # d # r \<Rightarrow>
          ci_letter 109 m \<and> ci_letter 105 i \<and> ci_letter 100 d \<and>
          (take 1 r = ustr ''?'' \<or> at_end r \<or>
           (case r of
              i2 # r2 \<Rightarrow> ci_letter 105 i2 \<and> (take 1 r2 = ustr ''?'' \<or> at_end r2)
            | [] \<Rightarrow> False))
      | _ \<Rightarrow> False)"

text \<open>\<open>re.search(r"\.(mid|midi)(\?|$)", href, flags=re.IGNORECASE)\<close> finds a match.\<close>

fun search_midi :: "str \<Rightarrow> bool" where
  "search_midi [] = False"
| "search_midi (c # cs) = ((c = 46 \<and> midi_suffix cs) \<or> search_midi cs)"

section \<open>The scraper\<close>

subsection \<open>\<open>_slugify\<close> and \<open>_safe_filename_from_url\<close>\<close>

text \<open>The class \<open>[a-z0-9\-_.()]\<close> of the second substitution.\<close>

definition slug_char :: "nat \<Rightarrow> bool" where
  "slug_char c \<longleftrightarrow>
     (97 \<le> c \<and> c \<le> 122) \<or> (48 \<le> c \<and> c \<le> 57) \<or> c = 45 \<or> c = 95 \<or> c = 46 \<or> c = 40 \<or> c = 41"

definition untitled :: str where
  "untitled = ustr ''untitled''"

definition slugify :: "pylib \<Rightarrow> str \<Rightarrow> int \<Rightarrow> str" where
  "slugify U text max_len =
     (let t1 = str_lower U (str_strip isspace text);
          t2 = sub_runs isspace (ustr ''-'') t1;
          t3 = sub_runs (\<lambda>c. \<not> slug_char c) (ustr ''-'') t2;
          t4 = str_strip (\<lambda>c. c = 45) (sub_runs (\<lambda>c. c = 45) (ustr ''-'') t3);
          t5 = py_slice_to max_len t4
      in if t5 = [] then untitled else t5)"

definition safe_filename_from_url :: "pylib \<Rightarrow> str \<Rightarrow> exn + str" where
  "safe_filename_from_url U url =
     (case urlparse U url [] of
        Inl e \<Rightarrow> Inl e
      | Inr parsed \<Rightarrow>
          (let (root, ext) = splitext (unquote (basename (path parsed)));
               ext' = (if ext \<noteq> [] then ext else ustr ''.mid'')
           in Inr (slugify U root 120 @ str_lower U ext')))"

subsection \<open>\<open>normalize_url\<close>\<close>

definition BASE_URL :: str where
  "BASE_URL = ustr ''https://animezen.net''"

definition normalize_url :: "pylib \<Rightarrow> str \<Rightarrow> exn + str" where
  "normalize_url U url =
     (case urljoin U BASE_URL url of
        Inl e \<Rightarrow> Inl e
      | Inr joined \<Rightarrow>
          (case urlsplit U joined [] of
             Inl e \<Rightarrow> Inl e
           | Inr parts \<Rightarrow>
               (case quote (ustr ''/()!.,;:@-_'') (unquote (path parts)) of
                  Inl e \<Rightarrow> Inl e
                | Inr safe_path \<Rightarrow>
                    (case quote_plus (ustr ''=&'') (unquote_plus (query parts)) of
                       Inl e \<Rightarrow> Inl e
                     | Inr safe_query \<Rightarrow>
                         (case quote [] (unquote (fragment parts)) of
                            Inl e \<Rightarrow> Inl e
                          | Inr safe_fragment \<Rightarrow>
                              Inr (urlunsplit (scheme parts) (netloc parts)
                                     safe_path safe_query safe_fragment))))))"

subsection \<open>\<open>parse_categories\<close>\<close>

record category =
  cat_name :: str
  cat_url :: str

text \<open>The readable name: \<open>unquote(href.split("/midis/", 1)[1]).replace("-", " ").strip() or href\<close>.
  The loop only gets here when \<open>href\<close> starts with \<open>/midis/\<close>, so the part after the
  first \<open>/midis/\<close> is \<open>href[7:]\<close>.\<close>

definition category_name_of :: "str \<Rightarrow> str" where
  "category_name_of href =
     (let n = str_strip isspace (map (\<lambda>c. if c = 45 then 32 else c) (unquote (drop 7 href)))
      in if n = [] then href else n)"

fun categories_loop :: "pylib \<Rightarrow> str list \<Rightarrow> exn + category list" where
  "categories_loop U [] = Inr []"
| "categories_loop U (href # hrefs) =
     (if \<not> startswith (ustr ''/midis/'') href then categories_loop U hrefs
      else if href = ustr ''/midis'' then categories_loop U hrefs
      else if search_midi href then categories_loop U hrefs
      else
        case urljoin U BASE_URL href of
          Inl e \<Rightarrow> Inl e
        | Inr url \<Rightarrow>
            (case categories_loop U hrefs of
               Inl e \<Rightarrow> Inl e
             | Inr cats \<Rightarrow> Inr (\<lparr>cat_name = category_name_of href, cat_url = url\<rparr> # cats)))"

text \<open>\<open>sorted(set(...))\<close>: Python orders strings by code points, lexicographically.\<close>

definition parse_categories :: "pylib \<Rightarrow> str \<Rightarrow> exn + category list" where
  "parse_categories U index_html = categories_loop U (sort (remdups (findall_href index_html)))"

text \<open>What an entry of the result is to the \<open>href\<close> it comes from, and the hrefs that the
  loop of \<open>parse_categories\<close> keeps.\<close>

definition category_of :: "pylib \<Rightarrow> str \<Rightarrow> category \<Rightarrow> bool" where
  "category_of U href c \<longleftrightarrow>
     cat_name c = category_name_of href \<and> urljoin U BASE_URL href = Inr (cat_url c) \<and>
     startswith (ustr ''https://animezen.net/'') (cat_url c)"

definition category_href :: "str \<Rightarrow> bool" where
  "category_href href \<longleftrightarrow> startswith (ustr ''/midis/'') href \<and> \<not> search_midi href"

subsection \<open>\<open>parse_midis\<close>\<close>

record midi =
  midi_category :: str
  midi_title :: str
  midi_url :: str

fun midis_loop :: "pylib \<Rightarrow> str \<Rightarrow> str list \<Rightarrow> exn + midi list" where
  "midis_loop U cname [] = Inr []"
| "midis_loop U cname (href # hrefs) =
     (if \<not> search_midi href then midis_loop U cname hrefs
      else
        case normalize_url U href of
          Inl e \<Rightarrow> Inl e
        | Inr u \<Rightarrow>
            (case urlparse U u [] of
               Inl e \<Rightarrow> Inl e
             | Inr parsed \<Rightarrow>
                 (case midis_loop U cname hrefs of
                    Inl e \<Rightarrow> Inl e
                  | Inr ms \<Rightarrow>
                      Inr (\<lparr>midi_category = cname, midi_title = unquote (basename (path parsed)),
                            midi_url = u\<rparr> # ms))))"

text \<open>The second loop of \<open>parse_midis\<close>: \<open>seen\<close> is the set of URLs kept so far.\<close>

fun unique_loop :: "str set \<Rightarrow> midi list \<Rightarrow> midi list" where
  "unique_loop seen [] = []"
| "unique_loop seen (m # ms) =
     (if midi_url m \<in> seen then unique_loop seen ms
      else m # unique_loop (insert (midi_url m) seen) ms)"

definition parse_midis :: "pylib \<Rightarrow> str \<Rightarrow> str \<Rightarrow> exn + midi list" where
  "parse_midis U category_html cname =
     (case midis_loop U cname (findall_href category_html) of
        Inl e \<Rightarrow> Inl e
      | Inr midis \<Rightarrow> Inr (unique_loop {} midis))"


subsection \<open>\<open>download_file\<close>\<close>

text \<open>
  The file system is a map from paths to the content found there, the network and the
  operating system are an environment that says what each call goes through.  A path
  is its text; \<open>dest_path.with_suffix(dest_path.suffix + ".part")\<close> is the path with
  \<open>.part\<close> appended.  The world also counts the calls of \<open>urlopen\<close> and records the
  arguments of the calls of \<open>time.sleep\<close> that returned.  Durations are real numbers,
  the finite values of a \<open>float\<close>.  The arguments \<open>user_agent\<close> and \<open>timeout_s\<close> only
  reach the HTTP request, whose outcome the environment gives.  A file is in the map
  when \<open>os.stat\<close> finds it.
\<close>

type_synonym fpath = string

record world =
  files :: "fpath \<Rightarrow> bytes option"
  net_calls :: nat
  slept :: "real list"

text \<open>
  What the body of the \<open>try\<close> goes through once \<open>urlopen\<close> is called: an exception
  before anything is written (from \<open>urlopen\<close> or from opening the temporary file), an
  exception from \<open>resp.read\<close> or \<open>out.write\<close> when the temporary file holds a part of the
  body, an exception from \<open>tmp_path.replace\<close> when it holds all that was read, or no
  exception.  In the last case the loop has written the chunks up to the first empty
  one and the temporary file was renamed.  \<open>resp.read(1024 * 64)\<close> returns an empty chunk
  at the end of the body, and also when the connection is closed before \<open>Content-Length\<close>
  bytes have arrived (\<open>HTTPResponse.read\<close> with an amount raises no \<open>IncompleteRead\<close>):
  the bytes of \<open>Completes\<close> are what was read, the whole body or the beginning of it.
\<close>

datatype attempt =
    Fails_before_write exn
  | Fails_midway bytes exn
  | Fails_replace bytes exn
  | Completes bytes

text \<open>
  The environment of one call: the body the server holds for the URL; what
  \<open>dest_path.exists()\<close> raises when \<open>os.stat\<close> finds no file (\<open>Path.exists\<close> returns
  \<open>False\<close> on \<open>ENOENT\<close>, \<open>ENOTDIR\<close>, \<open>EBADF\<close> and \<open>ELOOP\<close> and raises every other
  \<open>OSError\<close> again, that of a name too long for one); what \<open>mkdir\<close> raises; what attempt
  \<open>k\<close> goes through; whether the cleanup after attempt \<open>k\<close> raises; and what the
  operating system makes the sleep after attempt \<open>k\<close> raise once \<open>time.sleep\<close> has
  accepted its argument (an \<open>OSError\<close> when the clock refuses the deadline).  All these
  exceptions are of class \<open>Exception\<close>.
\<close>

record env =
  remote_body :: bytes
  exists_raises :: "exn option"
  mkdir_raises :: "exn option"
  attempt_result :: "nat \<Rightarrow> attempt"
  unlink_raises :: "nat \<Rightarrow> bool"
  sleep_raises :: "nat \<Rightarrow> exn option"

datatype status = Exists | Dry_run | Downloaded | Error "exn option"

definition tmp_path :: "fpath \<Rightarrow> fpath" where
  "tmp_path dest = dest @ ''.part''"

text \<open>\<open>dest_path.exists()\<close>.\<close>

definition path_exists :: "env \<Rightarrow> world \<Rightarrow> fpath \<Rightarrow> exn + bool" where
  "path_exists E w p =
     (if files w p \<noteq> None then Inr True
      else case exists_raises E of Some e \<Rightarrow> Inl e | None \<Rightarrow> Inr False)"

text \<open>
  The \<open>try\<close> block of attempt \<open>k\<close>: the exception it ends with, if any, and the world
  after it.  \<open>_request\<close> normalizes the URL first; when that raises, \<open>urlopen\<close> is not
  called.
\<close>

definition try_attempt :: "pylib \<Rightarrow> env \<Rightarrow> str \<Rightarrow> fpath \<Rightarrow> nat \<Rightarrow> world \<Rightarrow> exn option \<times> world" where
  "try_attempt U E url dest k w =
     (case normalize_url U url of
        Inl e \<Rightarrow> (Some e, w)
      | Inr u \<Rightarrow>
          (let w1 = w\<lparr>net_calls := net_calls w + 1\<rparr> in
           case attempt_result E k of
             Fails_before_write e \<Rightarrow> (Some e, w1)
           | Fails_midway part e \<Rightarrow> (Some e, w1\<lparr>files := (files w1)(tmp_path dest \<mapsto> part)\<rparr>)
           | Fails_replace body e \<Rightarrow> (Some e, w1\<lparr>files := (files w1)(tmp_path dest \<mapsto> body)\<rparr>)
           | Completes body \<Rightarrow>
               (None, w1\<lparr>files := (files w1)(tmp_path dest := None, dest \<mapsto> body)\<rparr>)))"

text \<open>The best-effort cleanup of the handler: an exception of \<open>unlink\<close> is swallowed.\<close>

definition cleanup :: "env \<Rightarrow> fpath \<Rightarrow> nat \<Rightarrow> world \<Rightarrow> world" where
  "cleanup E dest k w =
     (if files w (tmp_path dest) \<noteq> None \<and> \<not> unlink_raises E k
      then w\<lparr>files := (files w)(tmp_path dest := None)\<rparr>
      else w)"

text \<open>
  \<open>backoff_s * (2**attempt)\<close>: the integer \<open>2**attempt\<close> is converted to a \<open>float\<close>,
  which raises \<open>OverflowError\<close> from \<open>2**1024\<close> on.  Below, the product is exact, or
  infinite and then out of the range of \<open>time.sleep\<close> as the real product is.
\<close>

definition backoff_delay :: "real \<Rightarrow> nat \<Rightarrow> exn + real" where
  "backoff_delay backoff_s k =
     (if 1024 \<le> k then Inl (OverflowError ''int too large to convert to float'')
      else Inr (backoff_s * 2 ^ k))"

text \<open>
  \<open>time.sleep\<close> after attempt \<open>k\<close>.  It converts the seconds to nanoseconds in a 64-bit
  integer and raises \<open>OverflowError\<close> when the product, rounded to a \<open>float\<close>, is not in
  \<open>[-2^63, 2^63)\<close>: the floats next to \<open>2^63\<close> are \<open>2^63 - 1024\<close> and \<open>2^63 + 2048\<close>,
  so that the bounds for the exact product are \<open>2^63 - 512\<close> and \<open>- 2^63 - 1024\<close>.  It
  raises \<open>ValueError\<close> on a negative argument, and then whatever the operating system
  makes it raise.
\<close>

definition sleep :: "env \<Rightarrow> nat \<Rightarrow> real \<Rightarrow> world \<Rightarrow> exn + world" where
  "sleep E k d w =
     (if d * 10 ^ 9 < - (2 ^ 63) - 1024 \<or> 2 ^ 63 - 512 \<le> d * 10 ^ 9
      then Inl (OverflowError ''timestamp out of range for platform time_t'')
      else if d < 0 then Inl (ValueError ''sleep length must be non-negative'')
      else case sleep_raises E k of
             Some e \<Rightarrow> Inl e
           | None \<Rightarrow> Inr (w\<lparr>slept := slept w @ [d]\<rparr>))"

text \<open>The statement \<open>time.sleep(backoff_s * (2**attempt))\<close> of the handler.\<close>

definition backoff_sleep :: "env \<Rightarrow> real \<Rightarrow> nat \<Rightarrow> world \<Rightarrow> exn + world" where
  "backoff_sleep E backoff_s k w =
     (case backoff_delay backoff_s k of
        Inl e \<Rightarrow> Inl e
      | Inr d \<Rightarrow> sleep E k d w)"

text \<open>
  The loop \<open>for attempt in range(retries + 1)\<close> with \<open>n\<close> iterations left, at
  \<open>attempt = k\<close>; after the loop the function returns \<open>(False, f"error: {last_err}")\<close>.
  An exception of the sleep is raised inside the handler and leaves the function.
\<close>

fun attempts_loop ::
  "pylib \<Rightarrow> env \<Rightarrow> str \<Rightarrow> fpath \<Rightarrow> int \<Rightarrow> real \<Rightarrow> nat \<Rightarrow> nat \<Rightarrow> exn option \<Rightarrow> world
     \<Rightarrow> (exn + bool \<times> status) \<times> world" where
  "attempts_loop U E url dest retries backoff_s 0 k last_err w =
     (Inr (False, Error last_err), w)"
| "attempts_loop U E url dest retries backoff_s (Suc n) k last_err w =
     (case try_attempt U E url dest k w of
        (None, w1) \<Rightarrow> (Inr (True, Downloaded), w1)
      | (Some e, w1) \<Rightarrow>
          (let w2 = cleanup E dest k w1 in
           if int k < retries then
             (case backoff_sleep E backoff_s k w2 of
                Inl e' \<Rightarrow> (Inl e', w2)
              | Inr w3 \<Rightarrow> attempts_loop U E url dest retries backoff_s n (Suc k) (Some e) w3)
           else (Inr (False, Error (Some e)), w2)))"

definition download_file ::
  "pylib \<Rightarrow> env \<Rightarrow> str \<Rightarrow> fpath \<Rightarrow> int \<Rightarrow> real \<Rightarrow> bool \<Rightarrow> world
     \<Rightarrow> (exn + bool \<times> status) \<times> world" where
  "download_file U E url dest_path retries backoff_s dry_run w =
     (case path_exists E w dest_path of
        Inl e \<Rightarrow> (Inl e, w)
      | Inr True \<Rightarrow> (Inr (False, Exists), w)
      | Inr False \<Rightarrow>
          if dry_run then (Inr (False, Dry_run), w)
          else
            case mkdir_raises E of
              Some e \<Rightarrow> (Inl e, w)
            | None \<Rightarrow> attempts_loop U E url dest_path retries backoff_s (nat (retries + 1)) 0 None w)"

text \<open>The exception attempt \<open>k\<close> ends with, if any, and the number of \<open>urlopen\<close> calls
  an attempt makes (none when the URL cannot be normalized).\<close>

definition attempt_error :: "pylib \<Rightarrow> env \<Rightarrow> str \<Rightarrow> nat \<Rightarrow> exn option" where
  "attempt_error U E url k =
     (case normalize_url U url of
        Inl e \<Rightarrow> Some e
      | Inr u \<Rightarrow>
          (case attempt_result E k of
             Fails_before_write e \<Rightarrow> Some e
           | Fails_midway part e \<Rightarrow> Some e
           | Fails_replace body e \<Rightarrow> Some e
           | Completes body \<Rightarrow> None))"

definition calls_per_attempt :: "pylib \<Rightarrow> str \<Rightarrow> nat" where
  "calls_per_attempt U url = (case normalize_url U url of Inl e \<Rightarrow> 0 | Inr u \<Rightarrow> 1)"

text \<open>The sleeps after attempts \<open>k, ..., m - 1\<close>: \<open>backoff_s * 2 ^ attempt\<close> each.\<close>

definition backoff_sleeps :: "real \<Rightarrow> nat \<Rightarrow> nat \<Rightarrow> real list" where
  "backoff_sleeps backoff_s k m = map (\<lambda>i. backoff_s * 2 ^ i) [k..<m]"

text \<open>
  The sleep after attempt \<open>k\<close> returns: the power of two converts to a \<open>float\<close>,
  \<open>time.sleep\<close> accepts the duration, and the operating system raises nothing.  And
  the sleeps after the attempts below \<open>n\<close> all return.
\<close>

definition sleep_returns :: "env \<Rightarrow> real \<Rightarrow> nat \<Rightarrow> bool" where
  "sleep_returns E backoff_s k =
     (k < 1024 \<and> 0 \<le> backoff_s * 2 ^ k \<and> backoff_s * 2 ^ k * 10 ^ 9 < 2 ^ 63 - 512 \<and>
      sleep_raises E k = None)"

definition sleeps_return :: "env \<Rightarrow> real \<Rightarrow> nat \<Rightarrow> bool" where
  "sleeps_return E backoff_s n = (\<forall>k \<in> {..<n}. sleep_returns E backoff_s k)"

text \<open>An empty world and some environments, for evaluating the model.\<close>

definition world0 :: world where
  "world0 = \<lparr>files = (\<lambda>p. None), net_calls = 0, slept = []\<rparr>"

definition env_fail_twice :: env where
  "env_fail_twice =
     \<lparr>remote_body = [77, 84, 104, 100],
      exists_raises = None,
      mkdir_raises = None,
      attempt_result = (\<lambda>k. if k < 2 then Fails_midway [77, 84] (EnvError ''timed out'')
                            else Completes [77, 84, 104, 100]),
      unlink_raises = (\<lambda>k. False),
      sleep_raises = (\<lambda>k. None)\<rparr>"

definition env_unlink_stuck :: env where
  "env_unlink_stuck = env_fail_twice
     \<lparr>attempt_result := (\<lambda>k. Fails_midway [77, 84] (EnvError ''timed out'')),
      unlink_raises := (\<lambda>k. True)\<rparr>"

definition env_cut_short :: env where
  "env_cut_short = env_fail_twice\<lparr>attempt_result := (\<lambda>k. Completes [77, 84])\<rparr>"

definition env_no_mkdir :: env where
  "env_no_mkdir = env_fail_twice\<lparr>mkdir_raises := Some (EnvError ''Permission denied'')\<rparr>"

definition env_long_name :: env where
  "env_long_name = env_fail_twice\<lparr>exists_raises := Some (EnvError ''File name too long'')\<rparr>"

definition env_clock_refuses :: env where
  "env_clock_refuses = env_fail_twice\<lparr>sleep_raises := (\<lambda>k. Some (EnvError ''Invalid argument''))\<rparr>"

subsection \<open>\<open>iter_selected\<close>\<close>

definition iter_selected :: "'a list \<Rightarrow> int option \<Rightarrow> 'a list" where
  "iter_selected items limit =
     (case limit of
        None \<Rightarrow> items
      | Some n \<Rightarrow> if n < 0 then items else py_slice_to n items)"

text \<open>A value of the library parameters for evaluating the model on ASCII inputs,
  where \<open>lib_lower\<close> and \<open>lib_nfkc\<close> are never consulted.\<close>

definition ascii_lib :: pylib where
  "ascii_lib = \<lparr>lib_lower = (\<lambda>s. s), lib_nfkc = (\<lambda>s. s), lib_ipv6 = (\<lambda>s. False)\<rparr>"

section \<open>Properties of \<open>iter_selected\<close>\<close>

text \<open>
  C10.  With a non-negative limit \<open>n\<close> the list of items is cut to its first \<open>n\<close>
  entries; with a negative limit or with no limit (\<open>None\<close>) the list is returned
  unchanged.
\<close>

theorem iter_selected_limit:
  "(0 \<le> n \<longrightarrow> iter_selected items (Some n) = take (nat n) items) \<and>
   (n < 0 \<longrightarrow> iter_selected items (Some n) = items) \<and>
   iter_selected items None = items"
  by (simp add: iter_selected_def py_slice_to_def)

theorem iter_selected_limit_witness:
  "iter_selected [10, 20, 30 :: nat] (Some 2) = [10, 20] \<and>
   iter_selected [10, 20, 30 :: nat] (Some (- 1)) = [10, 20, 30] \<and>
   iter_selected [10, 20, 30 :: nat] None = [10, 20, 30]"
  using iter_selected_limit [of 2 "[10, 20, 30 :: nat]"]
        iter_selected_limit [of "- 1" "[10, 20, 30 :: nat]"]
  by simp

section \<open>Properties of \<open>_slugify\<close>\<close>

lemma set_sub_runs: "set (sub_runs P rep s) \<subseteq> set rep \<union> {c \<in> set s. \<not> P c}"
proof (induction P rep s rule: sub_runs.induct)
  case (1 P rep)
  then show ?case by simp
next
  case (2 P rep c cs)
  show ?case
  proof (cases "P c")
    case True
    with 2 have "set (sub_runs P rep (dropWhile P cs)) \<subseteq> set rep \<union> {c \<in> set (dropWhile P cs). \<not> P c}"
      by simp
    moreover have "set (dropWhile P cs) \<subseteq> set cs"
      by (auto dest: set_dropWhileD)
    ultimately show ?thesis using True by auto
  next
    case False
    with 2 show ?thesis by auto
  qed
qed

lemma set_str_strip: "set (str_strip P s) \<subseteq> set s"
  by (auto simp: str_strip_def str_lstrip_def str_rstrip_def dest!: set_dropWhileD)

lemma set_py_slice_to: "set (py_slice_to n xs) \<subseteq> set xs"
  by (auto simp: py_slice_to_def dest: in_set_takeD)

lemma length_py_slice_to: "0 \<le> n \<Longrightarrow> int (length (py_slice_to n xs)) \<le> n"
  by (simp add: py_slice_to_def)

lemma slug_char_untitled: "list_all slug_char untitled"
  by (simp add: untitled_def slug_char_def ustr_def)

text \<open>
  C6, as amended.  For every text and every \<open>max_len\<close> the result of \<open>_slugify\<close> has
  characters of \<open>[a-z0-9\-_.()]\<close> only and is never empty.  Its length is at most
  \<open>max_len\<close> except when the fallback \<open>untitled\<close> (eight characters) is returned: for
  \<open>max_len \<ge> 0\<close> the result is the fallback or at most \<open>max_len\<close> long, and for
  \<open>max_len \<ge> 8\<close> it is at most \<open>max_len\<close> long.  (The function is a function of its
  arguments: the same arguments give the same result.)
\<close>

theorem slugify_safe:
  "list_all slug_char (slugify U text max_len) \<and>
   slugify U text max_len \<noteq> [] \<and>
   (0 \<le> max_len \<longrightarrow>
      slugify U text max_len = untitled \<or> int (length (slugify U text max_len)) \<le> max_len) \<and>
   (8 \<le> max_len \<longrightarrow> int (length (slugify U text max_len)) \<le> max_len)"
proof -
  define t2 where "t2 = sub_runs isspace (ustr ''-'') (str_lower U (str_strip isspace text))"
  define t3 where "t3 = sub_runs (\<lambda>c. \<not> slug_char c) (ustr ''-'') t2"
  define t4 where "t4 = str_strip (\<lambda>c. c = 45) (sub_runs (\<lambda>c. c = 45) (ustr ''-'') t3)"
  define t5 where "t5 = py_slice_to max_len t4"
  have res: "slugify U text max_len = (if t5 = [] then untitled else t5)"
    by (simp add: slugify_def Let_def t2_def t3_def t4_def t5_def)
  have "set t3 \<subseteq> {c. slug_char c}"
    using set_sub_runs [of "\<lambda>c. \<not> slug_char c" "ustr ''-''" t2]
    by (auto simp: t3_def slug_char_def ustr_def)
  moreover have "set t4 \<subseteq> set (ustr ''-'') \<union> set t3"
    using set_str_strip [of "\<lambda>c. c = 45" "sub_runs (\<lambda>c. c = 45) (ustr ''-'') t3"]
          set_sub_runs [of "\<lambda>c. c = 45" "ustr ''-''" t3]
    by (auto simp: t4_def)
  ultimately have "set t4 \<subseteq> {c. slug_char c}"
    by (auto simp: slug_char_def ustr_def)
  then have t5: "list_all slug_char t5"
    using set_py_slice_to [of max_len t4] by (auto simp: t5_def list_all_iff)
  have len: "0 \<le> max_len \<Longrightarrow> int (length t5) \<le> max_len"
    by (simp add: t5_def length_py_slice_to)
  have un: "length untitled = 8" "untitled \<noteq> []"
    by (simp_all add: untitled_def ustr_def)
  show ?thesis
    using t5 len un slug_char_untitled by (auto simp: res)
qed

theorem slugify_safe_witness:
  "slugify ascii_lib (ustr ''  Ah! My Goddess - Opening  '') 120 = ustr ''ah-my-goddess-opening'' \<and>
   list_all slug_char (slugify ascii_lib (ustr ''  Ah! My Goddess - Opening  '') 120) \<and>
   int (length (slugify ascii_lib (ustr ''  Ah! My Goddess - Opening  '') 120)) \<le> 120"
  using slugify_safe [of ascii_lib "ustr ''  Ah! My Goddess - Opening  ''" 120]
  by (simp add: slugify_def ascii_lib_def str_lower_def str_strip_def str_lstrip_def str_rstrip_def
      isascii_str_def isspace_def ascii_lower_def slug_char_def py_slice_to_def untitled_def ustr_def)

text \<open>
  C6 as stated fails: with \<open>max_len = 3\<close> the empty text gives \<open>untitled\<close>, which is
  longer than \<open>max_len\<close>.
\<close>

theorem slugify_length_counterexample:
  "slugify ascii_lib (ustr '''') 3 = ustr ''untitled'' \<and>
   \<not> int (length (slugify ascii_lib (ustr '''') 3)) \<le> 3"
  by (simp add: slugify_def ascii_lib_def str_lower_def str_strip_def str_lstrip_def str_rstrip_def
      isascii_str_def py_slice_to_def untitled_def ustr_def)


section \<open>Evaluation on concrete inputs\<close>

text \<open>The definitions to unfold when the model is evaluated on a concrete input.\<close>

lemmas str_defs = ustr_def startswith_def before_first_def after_first_def rfind_def str_strip_def str_lstrip_def
  str_rstrip_def ascii_lower_def isascii_str_def str_lower_def py_slice_to_def isspace_def
lemmas utf8_defs = is_surrogate_def utf8_enc_def utf8_encode_def cont_def second_ok_def utf8_step_def
lemmas quote_defs = is_digit_def is_ascii_alpha_def hex_val_def hex_digit_def unquote_def unquote_plus_def
  always_safe_def quote_byte_def quote_from_bytes_def quote_def quote_plus_def
lemmas url_defs = uses_relative_def uses_netloc_def uses_params_def scheme_char_def c0_or_space_def
  unsafe_url_byte_def split_scheme_def netloc_delim_def splitnetloc_def check_bracketed_host_def
  checknetloc_def urlsplit_def splitparams_def urlparse_def urlunsplit_def urlunparse_def
  drop_empty_inner_def urljoin_def basename_def splitext_def BASE_URL_def normalize_url_def
  ascii_lib_def Let_def
lemmas download_defs = download_file_def path_exists_def try_attempt_def cleanup_def sleep_def
  backoff_delay_def backoff_sleep_def tmp_path_def world0_def attempt_error_def
  calls_per_attempt_def backoff_sleeps_def

lemmas slug_defs = slugify_def slug_char_def untitled_def safe_filename_from_url_def
lemmas regex_defs = ci_letter_def quote_mark_def match_href_def at_end_def midi_suffix_def
lemmas parse_defs = category_name_of_def parse_categories_def parse_midis_def

section \<open>Properties of \<open>download_file\<close>\<close>

lemma normalize_a_mid:
  "normalize_url ascii_lib (ustr ''/midis/a.mid'') = Inr (ustr ''https://animezen.net/midis/a.mid'')"
  by (simp add: str_defs utf8_defs quote_defs url_defs)

lemma try_attempt_dest:
  "try_attempt U E url dest k w = (r, w1) \<Longrightarrow>
     (r = None \<longrightarrow> (\<exists>body. attempt_result E k = Completes body \<and> files w1 dest = Some body \<and>
                        files w1 (tmp_path dest) = None)) \<and>
     (r \<noteq> None \<longrightarrow> files w1 dest = files w dest) \<and>
     (\<forall>p. p \<noteq> dest \<and> p \<noteq> tmp_path dest \<longrightarrow> files w1 p = files w p)"
  by (auto simp: try_attempt_def tmp_path_def Let_def split: sum.splits attempt.splits)

lemma cleanup_files:
  "files (cleanup E dest k w) dest = files w dest \<and>
   (\<not> unlink_raises E k \<longrightarrow> files (cleanup E dest k w) (tmp_path dest) = None) \<and>
   (\<forall>p. p \<noteq> tmp_path dest \<longrightarrow> files (cleanup E dest k w) p = files w p)"
  by (auto simp: cleanup_def tmp_path_def)

lemma sleep_files: "backoff_sleep E b k w = Inr w' \<Longrightarrow> files w' = files w"
  by (auto simp: backoff_sleep_def backoff_delay_def sleep_def split: if_splits option.splits)

lemma attempts_loop_dest:
  "attempts_loop U E url dest retries b n k lerr w = (res, w') \<Longrightarrow>
     (res = Inr (True, Downloaded) \<longrightarrow>
        (\<exists>j body. attempt_result E j = Completes body \<and> files w' dest = Some body \<and>
                   files w' (tmp_path dest) = None)) \<and>
     (res \<noteq> Inr (True, Downloaded) \<longrightarrow> files w' dest = files w dest) \<and>
     (\<forall>p. p \<noteq> dest \<and> p \<noteq> tmp_path dest \<longrightarrow> files w' p = files w p)"
proof (induction n arbitrary: k lerr w)
  case 0
  then show ?case by auto
next
  case (Suc n)
  obtain r w1 where t: "try_attempt U E url dest k w = (r, w1)"
    by (cases "try_attempt U E url dest k w")
  note td = try_attempt_dest [OF t]
  show ?case
  proof (cases r)
    case None
    with Suc.prems t td show ?thesis by auto
  next
    case (Some e)
    let ?w2 = "cleanup E dest k w1"
    note cf = cleanup_files [of E dest k w1]
    show ?thesis
    proof (cases "int k < retries")
      case False
      with Suc.prems t Some td cf show ?thesis by (auto simp: Let_def)
    next
      case True
      show ?thesis
      proof (cases "backoff_sleep E b k ?w2")
        case (Inl e')
        with Suc.prems t Some True td cf show ?thesis by (auto simp: Let_def)
      next
        case (Inr w3)
        with Suc.prems t Some True
        have rec: "attempts_loop U E url dest retries b n (Suc k) (Some e) w3 = (res, w')"
          by (simp add: Let_def)
        have f3: "files w3 = files ?w2" using sleep_files [OF Inr] .
        from Suc.IH [OF rec] f3 td cf Some show ?thesis
          by (simp add: tmp_path_def)
      qed
    qed
  qed
qed

lemma try_attempt_error:
  "try_attempt U E url dest k w = (r, w1) \<Longrightarrow>
     r = attempt_error U E url k \<and> slept w1 = slept w \<and>
     net_calls w1 = net_calls w + calls_per_attempt U url"
  by (auto simp: try_attempt_def attempt_error_def calls_per_attempt_def Let_def
      split: sum.splits attempt.splits)

lemma cleanup_other: "slept (cleanup E dest k w) = slept w \<and> net_calls (cleanup E dest k w) = net_calls w"
  by (simp add: cleanup_def)

lemma sleep_ok:
  assumes "sleep_returns E b k"
  shows "backoff_sleep E b k w = Inr (w\<lparr>slept := slept w @ [b * 2 ^ k]\<rparr>)"
proof -
  from assms have k: "k < 1024" and d0: "0 \<le> b * 2 ^ k"
    and d1: "b * 2 ^ k * 10 ^ 9 < 2 ^ 63 - 512" and s: "sleep_raises E k = None"
    by (simp_all add: sleep_returns_def)
  from d0 have "0 \<le> b * 2 ^ k * 10 ^ 9" by simp
  then have d2: "\<not> b * 2 ^ k * 10 ^ 9 < - (2 ^ 63) - 1024" by simp
  from d0 have d3: "\<not> b * 2 ^ k < 0" by simp
  from d1 have d4: "\<not> 2 ^ 63 - 512 \<le> b * 2 ^ k * 10 ^ 9" by (simp only: not_le)
  from k have "backoff_sleep E b k w = sleep E k (b * 2 ^ k) w"
    by (simp add: backoff_sleep_def backoff_delay_def)
  also have "\<dots> = Inr (w\<lparr>slept := slept w @ [b * 2 ^ k]\<rparr>)"
    unfolding sleep_def by (simp only: d2 d3 d4 s if_False simp_thms option.case)
  finally show ?thesis .
qed

lemma backoff_sleeps_step:
  "k < m \<Longrightarrow> backoff_sleeps b k m = (b * 2 ^ k) # backoff_sleeps b (Suc k) m"
  by (simp add: backoff_sleeps_def upt_conv_Cons)

lemma attempts_loop_all_fail:
  assumes "\<forall>j. k \<le> j \<and> j < k + n - 1 \<longrightarrow> sleep_returns E b j"
    and "\<forall>j. k \<le> j \<and> j < k + n \<longrightarrow> attempt_error U E url j \<noteq> None"
    and "int (k + n) = retries + 1" and "0 < n"
  shows "\<exists>w'. attempts_loop U E url dest retries b n k lerr w =
                 (Inr (False, Error (attempt_error U E url (k + n - 1))), w') \<and>
               slept w' = slept w @ backoff_sleeps b k (k + n - 1) \<and>
               net_calls w' = net_calls w + n * calls_per_attempt U url"
  using assms
proof (induction n arbitrary: k lerr w)
  case 0
  then show ?case by simp
next
  case (Suc n)
  obtain r w1 where t: "try_attempt U E url dest k w = (r, w1)"
    by (cases "try_attempt U E url dest k w")
  note te = try_attempt_error [OF t]
  from Suc.prems(2) have "attempt_error U E url k \<noteq> None" by simp
  then obtain e where e: "attempt_error U E url k = Some e" by auto
  let ?w2 = "cleanup E dest k w1"
  show ?case
  proof (cases "n = 0")
    case True
    with Suc.prems have "\<not> int k < retries" by simp
    with t te e True show ?thesis
      by (simp add: Let_def cleanup_other backoff_sleeps_def)
  next
    case False
    with Suc.prems have lt: "int k < retries" by simp
    from False Suc.prems(1) have d: "sleep_returns E b k" by simp
    let ?w3 = "?w2\<lparr>slept := slept ?w2 @ [b * 2 ^ k]\<rparr>"
    have step: "attempts_loop U E url dest retries b (Suc n) k lerr w =
                attempts_loop U E url dest retries b n (Suc k) (Some e) ?w3"
      using t te e lt sleep_ok [OF d, of ?w2] by (simp add: Let_def)
    have "\<exists>w'. attempts_loop U E url dest retries b n (Suc k) (Some e) ?w3 =
                 (Inr (False, Error (attempt_error U E url (Suc k + n - 1))), w') \<and>
               slept w' = slept ?w3 @ backoff_sleeps b (Suc k) (Suc k + n - 1) \<and>
               net_calls w' = net_calls ?w3 + n * calls_per_attempt U url"
      using Suc.prems False by (intro Suc.IH) auto
    then obtain w' where w': "attempts_loop U E url dest retries b n (Suc k) (Some e) ?w3 =
                 (Inr (False, Error (attempt_error U E url (Suc k + n - 1))), w')"
               "slept w' = slept ?w3 @ backoff_sleeps b (Suc k) (Suc k + n - 1)"
               "net_calls w' = net_calls ?w3 + n * calls_per_attempt U url"
      by blast
    have "k < k + Suc n - 1" using False by simp
    from backoff_sleeps_step [OF this, of b] w' step te show ?thesis
      by (simp add: cleanup_other)
  qed
qed

lemma attempts_loop_success:
  assumes "\<forall>j. k \<le> j \<and> j < m \<longrightarrow> sleep_returns E b j"
    and "k \<le> m" and "m < k + n" and "int (k + n) = retries + 1"
    and "\<forall>j. k \<le> j \<and> j < m \<longrightarrow> attempt_error U E url j \<noteq> None"
    and "attempt_error U E url m = None"
  shows "\<exists>w'. attempts_loop U E url dest retries b n k lerr w = (Inr (True, Downloaded), w') \<and>
               slept w' = slept w @ backoff_sleeps b k m \<and>
               net_calls w' = net_calls w + (m - k + 1)"
  using assms
proof (induction n arbitrary: k lerr w)
  case 0
  then show ?case by simp
next
  case (Suc n)
  obtain r w1 where t: "try_attempt U E url dest k w = (r, w1)"
    by (cases "try_attempt U E url dest k w")
  note te = try_attempt_error [OF t]
  have c1: "calls_per_attempt U url = 1"
    using Suc.prems(6) by (auto simp: attempt_error_def calls_per_attempt_def split: sum.splits)
  show ?case
  proof (cases "k = m")
    case True
    with t te Suc.prems(6) c1 show ?thesis
      by (simp add: backoff_sleeps_def)
  next
    case False
    with Suc.prems have km: "k < m" by simp
    with Suc.prems(5) have "attempt_error U E url k \<noteq> None" by simp
    then obtain e where e: "attempt_error U E url k = Some e" by auto
    let ?w2 = "cleanup E dest k w1"
    from km Suc.prems have lt: "int k < retries" by simp
    from km Suc.prems(1) have d: "sleep_returns E b k" by simp
    let ?w3 = "?w2\<lparr>slept := slept ?w2 @ [b * 2 ^ k]\<rparr>"
    have step: "attempts_loop U E url dest retries b (Suc n) k lerr w =
                attempts_loop U E url dest retries b n (Suc k) (Some e) ?w3"
      using t te e lt sleep_ok [OF d, of ?w2] by (simp add: Let_def)
    have "\<exists>w'. attempts_loop U E url dest retries b n (Suc k) (Some e) ?w3 =
                 (Inr (True, Downloaded), w') \<and>
               slept w' = slept ?w3 @ backoff_sleeps b (Suc k) m \<and>
               net_calls w' = net_calls ?w3 + (m - Suc k + 1)"
      using Suc.prems km by (intro Suc.IH) auto
    then obtain w' where w': "attempts_loop U E url dest retries b n (Suc k) (Some e) ?w3 =
                 (Inr (True, Downloaded), w')"
               "slept w' = slept ?w3 @ backoff_sleeps b (Suc k) m"
               "net_calls w' = net_calls ?w3 + (m - Suc k + 1)"
      by blast
    from backoff_sleeps_step [OF km, of b] w' step te km c1 show ?thesis
      by (simp add: cleanup_other)
  qed
qed

lemma attempts_loop_numeral:
  "attempts_loop U E url dest retries b (numeral v) k lerr w =
     (case try_attempt U E url dest k w of
        (None, w1) \<Rightarrow> (Inr (True, Downloaded), w1)
      | (Some e, w1) \<Rightarrow>
          (let w2 = cleanup E dest k w1 in
           if int k < retries then
             (case backoff_sleep E b k w2 of
                Inl e' \<Rightarrow> (Inl e', w2)
              | Inr w3 \<Rightarrow> attempts_loop U E url dest retries b (pred_numeral v) (Suc k) (Some e) w3)
           else (Inr (False, Error (Some e)), w2)))"
  unfolding numeral_eq_Suc by (simp only: attempts_loop.simps)

lemma attempts_loop_tmp:
  assumes "\<forall>j. \<not> unlink_raises E j"
    and "attempts_loop U E url dest retries b n k lerr w = (res, w')"
    and "lerr \<noteq> None \<longrightarrow> files w (tmp_path dest) = None"
    and "res \<noteq> Inr (False, Error None)"
  shows "files w' (tmp_path dest) = None"
  using assms
proof (induction n arbitrary: k lerr w)
  case 0
  then show ?case by auto
next
  case (Suc n)
  obtain r w1 where t: "try_attempt U E url dest k w = (r, w1)"
    by (cases "try_attempt U E url dest k w")
  note td = try_attempt_dest [OF t]
  show ?case
  proof (cases r)
    case None
    with Suc.prems t td show ?thesis by auto
  next
    case (Some e)
    let ?w2 = "cleanup E dest k w1"
    from Suc.prems(1) cleanup_files [of E dest k w1]
    have c2: "files ?w2 (tmp_path dest) = None" by simp
    show ?thesis
    proof (cases "int k < retries")
      case False
      with Suc.prems t Some c2 show ?thesis by (auto simp: Let_def)
    next
      case True
      show ?thesis
      proof (cases "backoff_sleep E b k ?w2")
        case (Inl e')
        with Suc.prems t Some True c2 show ?thesis by (auto simp: Let_def)
      next
        case (Inr w3)
        with Suc.prems t Some True
        have rec: "attempts_loop U E url dest retries b n (Suc k) (Some e) w3 = (res, w')"
          by (simp add: Let_def)
        have f3: "files w3 = files ?w2" using sleep_files [OF Inr] .
        show ?thesis
          by (rule Suc.IH [OF Suc.prems(1) rec]) (simp_all add: f3 c2 Suc.prems(4))
      qed
    qed
  qed
qed

lemma attempts_loop_returns:
  "\<forall>j. k \<le> j \<and> int j < retries \<longrightarrow> sleep_returns E b j \<Longrightarrow>
     \<exists>r w'. attempts_loop U E url dest retries b n k lerr w = (Inr r, w')"
proof (induction n arbitrary: k lerr w)
  case 0
  show ?case by auto
next
  case (Suc n)
  obtain r w1 where t: "try_attempt U E url dest k w = (r, w1)"
    by (cases "try_attempt U E url dest k w")
  show ?case
  proof (cases r)
    case None
    with t show ?thesis by auto
  next
    case (Some e)
    show ?thesis
    proof (cases "int k < retries")
      case False
      with t Some show ?thesis by (auto simp: Let_def)
    next
      case True
      with Suc.prems have d: "sleep_returns E b k" by simp
      have "\<forall>j. Suc k \<le> j \<and> int j < retries \<longrightarrow> sleep_returns E b j"
        using Suc.prems by simp
      from Suc.IH [OF this] t Some True sleep_ok [OF d, of "cleanup E dest k w1"] show ?thesis
        by (auto simp: Let_def)
    qed
  qed
qed

lemma download_file_absent:
  "files w dest = None \<Longrightarrow> exists_raises E = None \<Longrightarrow> mkdir_raises E = None \<Longrightarrow>
     download_file U E url dest retries b False w =
       attempts_loop U E url dest retries b (nat (retries + 1)) 0 None w"
  by (simp add: download_file_def path_exists_def)

lemma download_file_loop:
  assumes "download_file U E url dest retries b dry_run w = (res, w')"
  shows "attempts_loop U E url dest retries b (nat (retries + 1)) 0 None w = (res, w') \<or>
         (w' = w \<and> res \<noteq> Inr (True, Downloaded) \<and> (\<forall>err. res \<noteq> Inr (False, Error (Some err))))"
  using assms
  by (auto simp: download_file_def path_exists_def split: if_splits option.splits sum.splits bool.splits)



text \<open>
  C3, as amended.  Let the check \<open>dest_path.exists()\<close> find no file at the destination
  and raise nothing, let \<open>dry_run\<close> be off and let the creation of the parent directory
  succeed.  When every attempt \<open>0, ..., retries\<close> fails and the sleeps after the
  attempts below \<open>retries\<close> return, \<open>download_file\<close> returns \<open>(False, error)\<close> with the
  exception of the last attempt (with no exception when \<open>retries\<close> is negative and no
  attempt is made), after sleeping \<open>backoff_s * 2 ^ k\<close> after each failed attempt
  \<open>k < retries\<close>, in this order.  When attempt \<open>m \<le> retries\<close> is the first that does not
  fail and the sleeps after the attempts below \<open>m\<close> return, it returns
  \<open>(True, "downloaded")\<close> after \<open>m + 1\<close> calls of \<open>urlopen\<close> and the sleeps
  \<open>backoff_s * 2 ^ k\<close> for \<open>k < m\<close>.  Whatever the attempts do, when the sleeps after the
  attempts below \<open>retries\<close> return, \<open>download_file\<close> returns a pair and raises nothing.
  A sleep after attempt \<open>k\<close> returns when \<open>k < 1024\<close>, \<open>backoff_s\<close> is not negative,
  \<open>backoff_s * 2 ^ k\<close> is below the \<open>2 ^ 63 - 512\<close> nanoseconds that \<open>time.sleep\<close> accepts
  and the operating system raises nothing.
\<close>

theorem download_retries:
  assumes "files w dest = None" and "exists_raises E = None" and "mkdir_raises E = None"
  shows
    "((\<forall>k. int k \<le> retries \<longrightarrow> attempt_error U E url k \<noteq> None) \<and>
      sleeps_return E backoff_s (nat retries) \<longrightarrow>
        (\<exists>w'. download_file U E url dest retries backoff_s False w =
                 (Inr (False, Error (if retries < 0 then None
                                     else attempt_error U E url (nat retries))), w') \<and>
              slept w' = slept w @ backoff_sleeps backoff_s 0 (nat retries) \<and>
              net_calls w' = net_calls w + nat (retries + 1) * calls_per_attempt U url)) \<and>
     (int m \<le> retries \<and> (\<forall>k<m. attempt_error U E url k \<noteq> None) \<and>
      attempt_error U E url m = None \<and> sleeps_return E backoff_s m \<longrightarrow>
        (\<exists>w'. download_file U E url dest retries backoff_s False w = (Inr (True, Downloaded), w') \<and>
              slept w' = slept w @ backoff_sleeps backoff_s 0 m \<and>
              net_calls w' = net_calls w + (m + 1))) \<and>
     (sleeps_return E backoff_s (nat retries) \<longrightarrow>
        (\<exists>r w'. download_file U E url dest retries backoff_s False w = (Inr r, w')))"
proof (intro conjI impI)
  note df = download_file_absent [OF assms]
  assume "(\<forall>k. int k \<le> retries \<longrightarrow> attempt_error U E url k \<noteq> None) \<and>
      sleeps_return E backoff_s (nat retries)"
  then have all: "\<forall>k. int k \<le> retries \<longrightarrow> attempt_error U E url k \<noteq> None"
    and sl: "\<forall>j. j < nat retries \<longrightarrow> sleep_returns E backoff_s j"
    by (simp_all add: sleeps_return_def)
  show "\<exists>w'. download_file U E url dest retries backoff_s False w =
                 (Inr (False, Error (if retries < 0 then None
                                     else attempt_error U E url (nat retries))), w') \<and>
              slept w' = slept w @ backoff_sleeps backoff_s 0 (nat retries) \<and>
              net_calls w' = net_calls w + nat (retries + 1) * calls_per_attempt U url"
  proof (cases "retries < 0")
    case True
    then show ?thesis
      by (simp add: df backoff_sleeps_def)
  next
    case False
    then have n: "nat (retries + 1) = Suc (nat retries)" by simp
    have "\<exists>w'. attempts_loop U E url dest retries backoff_s (Suc (nat retries)) 0 None w =
                 (Inr (False, Error (attempt_error U E url (0 + Suc (nat retries) - 1))), w') \<and>
               slept w' = slept w @ backoff_sleeps backoff_s 0 (0 + Suc (nat retries) - 1) \<and>
               net_calls w' = net_calls w + Suc (nat retries) * calls_per_attempt U url"
      using sl all False by (intro attempts_loop_all_fail) auto
    with False n show ?thesis
      by (simp add: df)
  qed
next
  note df = download_file_absent [OF assms]
  assume m: "int m \<le> retries \<and> (\<forall>k<m. attempt_error U E url k \<noteq> None) \<and>
      attempt_error U E url m = None \<and> sleeps_return E backoff_s m"
  then have sl: "\<forall>j. j < m \<longrightarrow> sleep_returns E backoff_s j"
    by (simp add: sleeps_return_def)
  from m have "0 \<le> retries" by linarith
  then have n: "nat (retries + 1) = Suc (nat retries)" by simp
  have "\<exists>w'. attempts_loop U E url dest retries backoff_s (Suc (nat retries)) 0 None w =
               (Inr (True, Downloaded), w') \<and>
             slept w' = slept w @ backoff_sleeps backoff_s 0 m \<and>
             net_calls w' = net_calls w + (m - 0 + 1)"
    using sl m by (intro attempts_loop_success) auto
  with n show "\<exists>w'. download_file U E url dest retries backoff_s False w = (Inr (True, Downloaded), w') \<and>
              slept w' = slept w @ backoff_sleeps backoff_s 0 m \<and>
              net_calls w' = net_calls w + (m + 1)"
    by (simp add: df)
next
  note df = download_file_absent [OF assms]
  assume "sleeps_return E backoff_s (nat retries)"
  then have "\<forall>j. 0 \<le> j \<and> int j < retries \<longrightarrow> sleep_returns E backoff_s j"
    by (simp add: sleeps_return_def)
  from attempts_loop_returns [OF this, of U url dest "nat (retries + 1)" None w]
  show "\<exists>r w'. download_file U E url dest retries backoff_s False w = (Inr r, w')"
    by (simp add: df)
qed

text \<open>With \<open>retries = 2\<close> and \<open>backoff_s = 1\<close>, against a source that fails twice and then
  succeeds, the outcome is \<open>downloaded\<close> and the sleeps are \<open>1\<close> and \<open>2\<close>.\<close>

lemma attempt_error_fail_twice:
  "attempt_error ascii_lib env_fail_twice (ustr ''/midis/a.mid'') k =
     (if k < 2 then Some (EnvError ''timed out'') else None)"
  by (simp add: attempt_error_def normalize_a_mid env_fail_twice_def)

lemma sleeps_return_fail_twice: "sleeps_return env_fail_twice 1 2"
proof -
  have "sleep_returns env_fail_twice 1 k" if "k < 2" for k
  proof -
    from that have "k = 0 \<or> k = 1" by auto
    then show ?thesis by (auto simp: sleep_returns_def env_fail_twice_def)
  qed
  then show ?thesis by (simp add: sleeps_return_def)
qed

theorem download_retries_witness:
  "\<exists>w'. download_file ascii_lib env_fail_twice (ustr ''/midis/a.mid'') ''out/a.mid'' 2 1 False world0
           = (Inr (True, Downloaded), w') \<and>
        slept w' = [1, 2] \<and> net_calls w' = 3"
proof -
  have h1: "files world0 ''out/a.mid'' = None" by (simp add: world0_def)
  have h2: "exists_raises env_fail_twice = None" by (simp add: env_fail_twice_def)
  have h3: "mkdir_raises env_fail_twice = None" by (simp add: env_fail_twice_def)
  have p: "int 2 \<le> 2 \<and>
           (\<forall>k<2. attempt_error ascii_lib env_fail_twice (ustr ''/midis/a.mid'') k \<noteq> None) \<and>
           attempt_error ascii_lib env_fail_twice (ustr ''/midis/a.mid'') 2 = None \<and>
           sleeps_return env_fail_twice 1 2"
    by (simp add: attempt_error_fail_twice sleeps_return_fail_twice)
  have s: "backoff_sleeps 1 0 2 = [1, 2]"
    by (simp add: backoff_sleeps_def upt_conv_Cons numeral_2_eq_2)
  have w: "slept world0 = [] \<and> net_calls world0 = 0" by (simp add: world0_def)
  from download_retries [OF h1 h2 h3, where retries = 2 and U = ascii_lib
      and url = "ustr ''/midis/a.mid''" and m = 2 and backoff_s = 1] p
  obtain w' where "download_file ascii_lib env_fail_twice (ustr ''/midis/a.mid'') ''out/a.mid'' 2 1
        False world0 = (Inr (True, Downloaded), w')"
      "slept w' = slept world0 @ backoff_sleeps 1 0 2" "net_calls w' = net_calls world0 + (2 + 1)"
    by blast
  with s w show ?thesis by simp
qed

text \<open>
  C3 as stated fails: an exception of \<open>dest_path.parent.mkdir\<close> is raised before the
  \<open>try\<close> and leaves \<open>download_file\<close>; the \<open>time.sleep\<close> of the handler raises
  \<open>ValueError\<close> with a negative \<open>backoff_s\<close>, \<open>OverflowError\<close> with \<open>backoff_s = 10^10\<close>
  and the \<open>OSError\<close> of a clock that refuses the deadline, and each leaves
  \<open>download_file\<close> too; and so does the \<open>OSError\<close> that \<open>dest_path.exists()\<close> raises
  again.
\<close>

theorem download_raises_counterexample:
  "fst (download_file ascii_lib env_no_mkdir (ustr ''/midis/a.mid'') ''out/a.mid'' 2 1 False world0)
     = Inl (EnvError ''Permission denied'') \<and>
   fst (download_file ascii_lib env_fail_twice (ustr ''/midis/a.mid'') ''out/a.mid'' 2 (- 1) False world0)
     = Inl (ValueError ''sleep length must be non-negative'') \<and>
   fst (download_file ascii_lib env_fail_twice (ustr ''/midis/a.mid'') ''out/a.mid'' 2 (10 ^ 10) False
          world0)
     = Inl (OverflowError ''timestamp out of range for platform time_t'') \<and>
   fst (download_file ascii_lib env_clock_refuses (ustr ''/midis/a.mid'') ''out/a.mid'' 2 1 False world0)
     = Inl (EnvError ''Invalid argument'') \<and>
   fst (download_file ascii_lib env_long_name (ustr ''/midis/a.mid'') ''out/a.mid'' 2 1 False world0)
     = Inl (EnvError ''File name too long'')"
  by (simp add: download_defs env_no_mkdir_def env_fail_twice_def env_clock_refuses_def
      env_long_name_def normalize_a_mid attempts_loop_numeral)

text \<open>
  C1, as amended.  The body is written to the path with \<open>.part\<close> appended and never to
  the destination: an attempt that ends with an exception leaves the destination as
  it was, also after the cleanup, and the cleanup leaves no file at the temporary path
  unless its \<open>unlink\<close> raises (the cleanup is best-effort: that exception is swallowed).
  For a whole call: when it returns \<open>downloaded\<close>, the destination holds what an
  attempt that ended without an exception has read, and no file is at the temporary
  path; what was read is the body of the server whenever no attempt ends without an
  exception before the whole body has arrived (nothing in \<open>download_file\<close> checks this:
  a stream cut short that ends with an empty chunk and no exception is installed as it
  is); in every other case (an error outcome, a skip or an exception) the destination
  is as it was before; when it returns an error after a failed attempt and no \<open>unlink\<close>
  raised, no file is at the temporary path; and no other path is touched.
\<close>

theorem download_atomic:
  "(try_attempt U E url dest k w = (Some e, w1) \<longrightarrow>
      files w1 dest = files w dest \<and>
      files (cleanup E dest k w1) dest = files w dest \<and>
      (\<not> unlink_raises E k \<longrightarrow> files (cleanup E dest k w1) (tmp_path dest) = None)) \<and>
   (download_file U E url dest retries backoff_s dry_run w = (res, w') \<longrightarrow>
      (res = Inr (True, Downloaded) \<longrightarrow>
         (\<exists>j body. attempt_result E j = Completes body \<and> files w' dest = Some body \<and>
                    files w' (tmp_path dest) = None)) \<and>
      (res = Inr (True, Downloaded) \<and>
       (\<forall>j body. attempt_result E j = Completes body \<longrightarrow> body = remote_body E) \<longrightarrow>
         files w' dest = Some (remote_body E)) \<and>
      (res \<noteq> Inr (True, Downloaded) \<longrightarrow> files w' dest = files w dest) \<and>
      ((\<forall>j. \<not> unlink_raises E j) \<and> (\<exists>err. res = Inr (False, Error (Some err))) \<longrightarrow>
         files w' (tmp_path dest) = None) \<and>
      (\<forall>p. p \<noteq> dest \<and> p \<noteq> tmp_path dest \<longrightarrow> files w' p = files w p))"
proof (intro conjI impI)
  assume t: "try_attempt U E url dest k w = (Some e, w1)"
  from try_attempt_dest [OF t] show "files w1 dest = files w dest" by simp
  with cleanup_files [of E dest k w1] show "files (cleanup E dest k w1) dest = files w dest"
    by simp
  assume "\<not> unlink_raises E k"
  with cleanup_files [of E dest k w1] show "files (cleanup E dest k w1) (tmp_path dest) = None"
    by simp
next
  assume d: "download_file U E url dest retries backoff_s dry_run w = (res, w')"
  note dl = download_file_loop [OF d]
  {
    assume r: "res = Inr (True, Downloaded)"
    with dl have "attempts_loop U E url dest retries backoff_s (nat (retries + 1)) 0 None w = (res, w')"
      by blast
    from attempts_loop_dest [OF this] r
    show "\<exists>j body. attempt_result E j = Completes body \<and> files w' dest = Some body \<and>
                    files w' (tmp_path dest) = None"
      by simp
  }
  {
    assume r: "res = Inr (True, Downloaded) \<and>
       (\<forall>j body. attempt_result E j = Completes body \<longrightarrow> body = remote_body E)"
    with dl have "attempts_loop U E url dest retries backoff_s (nat (retries + 1)) 0 None w = (res, w')"
      by blast
    from attempts_loop_dest [OF this] r
    show "files w' dest = Some (remote_body E)"
      by auto
  }
  {
    assume r: "res \<noteq> Inr (True, Downloaded)"
    from dl show "files w' dest = files w dest"
    proof
      assume "attempts_loop U E url dest retries backoff_s (nat (retries + 1)) 0 None w = (res, w')"
      from attempts_loop_dest [OF this] r show ?thesis by simp
    next
      assume "w' = w \<and> res \<noteq> Inr (True, Downloaded) \<and> (\<forall>err. res \<noteq> Inr (False, Error (Some err)))"
      then show ?thesis by simp
    qed
  }
  {
    assume r: "(\<forall>j. \<not> unlink_raises E j) \<and> (\<exists>err. res = Inr (False, Error (Some err)))"
    with dl have l: "attempts_loop U E url dest retries backoff_s (nat (retries + 1)) 0 None w = (res, w')"
      by blast
    show "files w' (tmp_path dest) = None"
      by (rule attempts_loop_tmp [OF _ l]) (use r in auto)
  }
  from dl show "\<forall>p. p \<noteq> dest \<and> p \<noteq> tmp_path dest \<longrightarrow> files w' p = files w p"
  proof
    assume "attempts_loop U E url dest retries backoff_s (nat (retries + 1)) 0 None w = (res, w')"
    from attempts_loop_dest [OF this] show ?thesis by simp
  next
    assume "w' = w \<and> res \<noteq> Inr (True, Downloaded) \<and> (\<forall>err. res \<noteq> Inr (False, Error (Some err)))"
    then show ?thesis by simp
  qed
qed

theorem download_atomic_witness:
  "files (snd (download_file ascii_lib env_fail_twice (ustr ''/midis/a.mid'') ''out/a.mid'' 1 1 False
            world0)) ''out/a.mid'' = None \<and>
   files (snd (download_file ascii_lib env_fail_twice (ustr ''/midis/a.mid'') ''out/a.mid'' 1 1 False
            world0)) ''out/a.mid.part'' = None \<and>
   fst (download_file ascii_lib env_fail_twice (ustr ''/midis/a.mid'') ''out/a.mid'' 1 1 False world0)
     = Inr (False, Error (Some (EnvError ''timed out''))) \<and>
   files (snd (download_file ascii_lib env_fail_twice (ustr ''/midis/a.mid'') ''out/a.mid'' 2 1 False
            world0)) ''out/a.mid'' = Some (remote_body env_fail_twice)"
proof -
  obtain res w' where d: "download_file ascii_lib env_fail_twice (ustr ''/midis/a.mid'') ''out/a.mid''
      1 1 False world0 = (res, w')"
    by (cases "download_file ascii_lib env_fail_twice (ustr ''/midis/a.mid'') ''out/a.mid'' 1 1 False world0")
  have "fst (download_file ascii_lib env_fail_twice (ustr ''/midis/a.mid'') ''out/a.mid''
      1 1 False world0) = Inr (False, Error (Some (EnvError ''timed out'')))"
    by (simp add: download_defs env_fail_twice_def normalize_a_mid attempts_loop_numeral)
  with d have r: "res = Inr (False, Error (Some (EnvError ''timed out'')))" by simp
  have u: "\<forall>j. \<not> unlink_raises env_fail_twice j" by (simp add: env_fail_twice_def)
  have f: "files world0 ''out/a.mid'' = None" by (simp add: world0_def)
  have t: "tmp_path ''out/a.mid'' = ''out/a.mid.part''" by (simp add: tmp_path_def)
  from download_atomic [where U = ascii_lib and E = env_fail_twice and url = "ustr ''/midis/a.mid''"
      and dest = "''out/a.mid''" and k = 0 and w = world0 and retries = 1 and backoff_s = 1
      and dry_run = False and res = res and w' = w'] d r u
  have "files w' ''out/a.mid'' = files world0 ''out/a.mid'' \<and> files w' (tmp_path ''out/a.mid'') = None"
    by blast
  with d r f t have one: "files (snd (download_file ascii_lib env_fail_twice (ustr ''/midis/a.mid'')
        ''out/a.mid'' 1 1 False world0)) ''out/a.mid'' = None \<and>
     files (snd (download_file ascii_lib env_fail_twice (ustr ''/midis/a.mid'') ''out/a.mid'' 1 1 False
        world0)) ''out/a.mid.part'' = None \<and>
     fst (download_file ascii_lib env_fail_twice (ustr ''/midis/a.mid'') ''out/a.mid'' 1 1 False world0)
       = Inr (False, Error (Some (EnvError ''timed out'')))"
    by simp
  obtain res2 w2 where d2: "download_file ascii_lib env_fail_twice (ustr ''/midis/a.mid'') ''out/a.mid''
      2 1 False world0 = (res2, w2)"
    by (cases "download_file ascii_lib env_fail_twice (ustr ''/midis/a.mid'') ''out/a.mid'' 2 1 False world0")
  have "fst (download_file ascii_lib env_fail_twice (ustr ''/midis/a.mid'') ''out/a.mid''
      2 1 False world0) = Inr (True, Downloaded)"
    by (simp add: download_defs env_fail_twice_def normalize_a_mid attempts_loop_numeral)
  with d2 have r2: "res2 = Inr (True, Downloaded)" by simp
  have c: "\<forall>j body. attempt_result env_fail_twice j = Completes body \<longrightarrow>
             body = remote_body env_fail_twice"
    by (simp add: env_fail_twice_def)
  from download_atomic [where U = ascii_lib and E = env_fail_twice and url = "ustr ''/midis/a.mid''"
      and dest = "''out/a.mid''" and k = 0 and w = world0 and retries = 2 and backoff_s = 1
      and dry_run = False and res = res2 and w' = w2] d2 r2 c
  have "files w2 ''out/a.mid'' = Some (remote_body env_fail_twice)"
    by blast
  with d2 one show ?thesis by simp
qed

text \<open>
  C1 as stated fails.  A stream that is cut short and ends with an empty chunk raises
  nothing: the two bytes that arrived of a body of four are renamed to the destination
  and the outcome is \<open>downloaded\<close>.  And when the \<open>unlink\<close> of the cleanup raises, the
  exception is swallowed and the partial temporary file stays after the final error.
\<close>

theorem download_atomic_counterexample:
  "fst (download_file ascii_lib env_cut_short (ustr ''/midis/a.mid'') ''out/a.mid'' 0 1 False world0)
     = Inr (True, Downloaded) \<and>
   files (snd (download_file ascii_lib env_cut_short (ustr ''/midis/a.mid'') ''out/a.mid'' 0 1 False
            world0)) ''out/a.mid'' = Some [77, 84] \<and>
   remote_body env_cut_short = [77, 84, 104, 100] \<and>
   fst (download_file ascii_lib env_unlink_stuck (ustr ''/midis/a.mid'') ''out/a.mid'' 0 1 False world0)
     = Inr (False, Error (Some (EnvError ''timed out''))) \<and>
   files (snd (download_file ascii_lib env_unlink_stuck (ustr ''/midis/a.mid'') ''out/a.mid'' 0 1 False
            world0)) ''out/a.mid.part'' = Some [77, 84]"
  by (simp add: download_defs env_cut_short_def env_unlink_stuck_def env_fail_twice_def
      normalize_a_mid)

section \<open>Percent-encoding: \<open>unquote\<close> undoes \<open>quote\<close>\<close>

lemma split64: "\<exists>x lo. c = x * 64 + lo \<and> lo < 64 \<and> c div 64 = x \<and> c mod 64 = lo" for c :: nat
  by (rule exI [of _ "c div 64"], rule exI [of _ "c mod 64"]) simp

lemma div4096: "c div 4096 = c div 64 div 64" for c :: nat
  using div_mult2_eq [of c 64 64] by simp

lemma div262144: "c div 262144 = c div 64 div 64 div 64" for c :: nat
  using div_mult2_eq [of c 4096 64] div4096 [of c] by simp

lemma utf8_decode_enc:
  assumes "scalar c"
  shows "utf8_decode (utf8_enc c @ rest) = c # utf8_decode rest"
proof -
  obtain x lo where c: "c = x * 64 + lo" "lo < 64" "c div 64 = x" "c mod 64 = lo"
    using split64 [of c] by blast
  obtain y mid where x: "x = y * 64 + mid" "mid < 64" "x div 64 = y" "x mod 64 = mid"
    using split64 [of x] by blast
  obtain z hi where y: "y = z * 64 + hi" "hi < 64" "y div 64 = z" "y mod 64 = hi"
    using split64 [of y] by blast
  have d1: "c div 4096 = y" by (simp only: div4096 c(3) x(3))
  have d2: "c div 262144 = z" by (simp only: div262144 c(3) x(3) y(3))
  from assms have lt: "c < 1114112" and ns: "c < 55296 \<or> 57343 < c"
    by (auto simp: scalar_def is_surrogate_def)
  consider "c < 128" | "128 \<le> c" "c < 2048" | "2048 \<le> c" "c < 65536" | "65536 \<le> c"
    by linarith
  then show ?thesis
  proof cases
    case 1
    then show ?thesis by (simp add: utf8_enc_def utf8_step_def)
  next
    case 2
    with c have "x < 32" "2 \<le> x" by linarith+
    moreover have "x * 64 + lo = c" using c by simp
    ultimately show ?thesis using 2 c(2)
      by (simp add: utf8_enc_def utf8_step_def cont_def c(3,4))
  next
    case 3
    with c x have b: "y < 16" by linarith
    have s: "second_ok (224 + y) (128 + mid)"
    proof -
      have "y = 0 \<Longrightarrow> 32 \<le> mid" using 3 c x by linarith
      moreover have "y = 13 \<Longrightarrow> mid < 32" using ns 3 c x by linarith
      ultimately show ?thesis using b x(2) by (auto simp: second_ok_def cont_def)
    qed
    have e: "utf8_enc c = [224 + y, 128 + mid, 128 + lo]"
      using 3 by (simp add: utf8_enc_def d1 c(3,4) x(3,4))
    have r: "y * 4096 + mid * 64 + lo = c" using c x by simp
    show ?thesis unfolding e using b s c(2) x(2) r
      by (simp add: utf8_step_def cont_def)
  next
    case 4
    with c x y lt have b: "z < 5" by linarith
    have s: "second_ok (240 + z) (128 + hi)"
    proof -
      have "z = 0 \<Longrightarrow> 16 \<le> hi" using 4 c x y by linarith
      moreover have "z = 4 \<Longrightarrow> hi < 16" using lt c x y by linarith
      ultimately show ?thesis using b y(2) by (auto simp: second_ok_def cont_def)
    qed
    have e: "utf8_enc c = [240 + z, 128 + hi, 128 + mid, 128 + lo]"
      using 4 by (simp add: utf8_enc_def d1 d2 c(3,4) x(3,4) y(3,4))
    have r: "z * 262144 + hi * 4096 + mid * 64 + lo = c" using c x y by simp
    show ?thesis unfolding e using b s c(2) x(2) y(2) r
      by (simp add: utf8_step_def cont_def)
  qed
qed

lemma utf8_roundtrip:
  "list_all scalar s \<Longrightarrow> utf8_decode (concat (map utf8_enc s)) = s"
  by (induction s) (simp_all add: utf8_decode_enc)

lemma hex_val_digit: "v < 16 \<Longrightarrow> hex_val (hex_digit v) = Some v"
  by (auto simp: hex_val_def hex_digit_def)

lemma unquote_to_bytes_plain:
  "c \<noteq> 37 \<Longrightarrow> unquote_to_bytes (c # r) = c # unquote_to_bytes r"
  by (cases r; cases "tl r") auto

lemma unquote_to_bytes_escape:
  "v < 16 \<Longrightarrow> w < 16 \<Longrightarrow>
     unquote_to_bytes (37 # hex_digit v # hex_digit w # r) = (16 * v + w) # unquote_to_bytes r"
  by (simp add: hex_val_digit)

lemma unquote_to_bytes_quote_byte:
  assumes "b < 256" and "37 \<notin> set safe"
  shows "unquote_to_bytes (quote_byte safe b @ r) = b # unquote_to_bytes r"
proof (cases "always_safe b \<or> (b < 128 \<and> b \<in> set safe)")
  case True
  with assms have "b \<noteq> 37" by (auto simp: always_safe_def is_ascii_alpha_def is_digit_def)
  with True show ?thesis by (simp add: quote_byte_def unquote_to_bytes_plain)
next
  case False
  have "b div 16 < 16" using assms by simp
  moreover have "b mod 16 < 16" by simp
  moreover have "16 * (b div 16) + b mod 16 = b" by simp
  ultimately show ?thesis using False
    by (auto simp add: quote_byte_def unquote_to_bytes_escape simp del: unquote_to_bytes.simps)
qed

lemma unquote_to_bytes_quote:
  "list_all (\<lambda>b. b < 256) bs \<Longrightarrow> 37 \<notin> set safe \<Longrightarrow>
     unquote_to_bytes (quote_from_bytes safe bs) = bs"
  by (induction bs) (simp_all add: quote_from_bytes_def unquote_to_bytes_quote_byte)

lemma hex_digit_ascii: "v < 16 \<Longrightarrow> hex_digit v < 128 \<and> always_safe (hex_digit v)"
  by (auto simp: hex_digit_def always_safe_def is_ascii_alpha_def is_digit_def)

lemma quote_byte_chars:
  "c \<in> set (quote_byte safe b) \<Longrightarrow> b < 256 \<Longrightarrow>
     c < 128 \<and> (always_safe c \<or> c \<in> set safe \<or> c = 37)"
proof -
  assume a: "c \<in> set (quote_byte safe b)" and b: "b < 256"
  have h: "b div 16 < 16" "b mod 16 < 16" using b by simp_all
  have as: "always_safe x \<Longrightarrow> x < 128" for x
    by (auto simp: always_safe_def is_ascii_alpha_def is_digit_def)
  from a show ?thesis
    using hex_digit_ascii [OF h(1)] hex_digit_ascii [OF h(2)] as [of b]
    by (auto simp: quote_byte_def split: if_splits)
qed

lemma quote_from_bytes_chars:
  "list_all (\<lambda>b. b < 256) bs \<Longrightarrow> c \<in> set (quote_from_bytes safe bs) \<Longrightarrow>
     c < 128 \<and> (always_safe c \<or> c \<in> set safe \<or> c = 37)"
  by (induction bs) (auto simp: quote_from_bytes_def dest: quote_byte_chars)

lemma utf8_enc_bytes: "c < 1114112 \<Longrightarrow> list_all (\<lambda>b. b < 256) (utf8_enc c)"
proof -
  assume lt: "c < 1114112"
  have m: "c mod 64 < 64" "c div 64 mod 64 < 64" "c div 4096 mod 64 < 64" by simp_all
  have "c < 2048 \<Longrightarrow> c div 64 < 32" by simp
  moreover have "c < 65536 \<Longrightarrow> c div 4096 < 16" by simp
  moreover have "c div 262144 < 5" using lt by simp
  ultimately show ?thesis using m by (auto simp: utf8_enc_def)
qed

lemma utf8_bytes: "list_all (\<lambda>c. c < 1114112) s \<Longrightarrow> list_all (\<lambda>b. b < 256) (concat (map utf8_enc s))"
  by (induction s) (simp_all add: utf8_enc_bytes)

lemma utf8_decode_ascii: "list_all (\<lambda>c. c < 128) s \<Longrightarrow> utf8_decode s = s"
  by (induction s) (simp_all add: utf8_step_def)

lemma unquote_to_bytes_none: "37 \<notin> set s \<Longrightarrow> unquote_to_bytes s = s"
  by (induction s rule: unquote_to_bytes.induct) auto

lemma unquote_runs_ascii:
  "list_all (\<lambda>c. c < 128) s \<Longrightarrow> unquote_runs s = utf8_decode (unquote_to_bytes s)"
proof (cases s)
  case Nil
  then show ?thesis by simp
next
  case (Cons c cs)
  assume "list_all (\<lambda>c. c < 128) s"
  with Cons have c: "c < 128" and cs: "list_all (\<lambda>c. c < 128) cs" by simp_all
  from cs have tw: "takeWhile (\<lambda>x. x < 128) cs = cs" "dropWhile (\<lambda>x. x < 128) cs = []"
    by (simp_all add: list_all_iff)
  show ?thesis unfolding Cons using c by (simp add: tw)
qed

lemma unquote_ascii:
  "list_all (\<lambda>c. c < 128) s \<Longrightarrow> unquote s = utf8_decode (unquote_to_bytes s)"
  by (simp add: unquote_def unquote_runs_ascii unquote_to_bytes_none utf8_decode_ascii)

lemma quote_Inr:
  "quote safe s = Inr q \<Longrightarrow>
     \<not> list_ex is_surrogate s \<and> q = quote_from_bytes safe (concat (map utf8_enc s))"
  by (auto simp: quote_def utf8_encode_def quote_from_bytes_def split: if_splits)

lemma quote_ok:
  "\<not> list_ex is_surrogate s \<Longrightarrow> quote safe s = Inr (quote_from_bytes safe (concat (map utf8_enc s)))"
  by (auto simp: quote_def utf8_encode_def quote_from_bytes_def)

lemma scalar_iff: "list_all scalar s \<longleftrightarrow> list_all (\<lambda>c. c < 1114112) s \<and> \<not> list_ex is_surrogate s"
  by (auto simp: scalar_def list_all_iff list_ex_iff)

lemma unquote_quote:
  assumes "quote safe s = Inr q" and "list_all (\<lambda>c. c < 1114112) s" and "37 \<notin> set safe"
  shows "unquote q = s"
proof -
  let ?bs = "concat (map utf8_enc s)"
  from quote_Inr [OF assms(1)] have ns: "\<not> list_ex is_surrogate s" and q: "q = quote_from_bytes safe ?bs"
    by simp_all
  have b: "list_all (\<lambda>b. b < 256) ?bs" by (rule utf8_bytes [OF assms(2)])
  have "list_all (\<lambda>c. c < 128) q"
    unfolding q list_all_iff using quote_from_bytes_chars [OF b] by blast
  then have "unquote q = utf8_decode (unquote_to_bytes q)" by (rule unquote_ascii)
  also have "\<dots> = utf8_decode ?bs" by (simp add: q unquote_to_bytes_quote [OF b assms(3)])
  also have "\<dots> = s" using assms(2) ns by (intro utf8_roundtrip) (simp add: scalar_iff)
  finally show ?thesis .
qed

lemma quote_unquote_idem:
  assumes "quote safe s = Inr q" and "list_all (\<lambda>c. c < 1114112) s" and "37 \<notin> set safe"
  shows "quote safe (unquote q) = Inr q"
  using unquote_quote [OF assms] assms(1) by simp

lemma utf8_step_scalar: "scalar (fst (utf8_step b bs))"
proof -
  have s: "scalar 65533" by (simp add: scalar_def is_surrogate_def)
  consider "b < 128" | "194 \<le> b" "b \<le> 223" | "224 \<le> b" "b \<le> 239" | "240 \<le> b" "b \<le> 244"
    | "128 \<le> b" "b < 194" | "244 < b"
    by linarith
  then show ?thesis
  proof cases
    case 1
    then show ?thesis by (simp add: utf8_step_def scalar_def is_surrogate_def)
  next
    case 2
    then show ?thesis
      by (auto simp: utf8_step_def scalar_def is_surrogate_def cont_def split: list.splits)
  next
    case 3
    have "scalar ((b - 224) * 4096 + (b1 - 128) * 64 + (b2 - 128))"
      if "second_ok b b1" "cont b2" for b1 b2
    proof -
      from that 3 have c: "128 \<le> b1" "b1 < 192" "128 \<le> b2" "b2 < 192"
        by (auto simp: second_ok_def cont_def split: if_splits)
      have "b = 237 \<Longrightarrow> b1 < 160" using that by (simp add: second_ok_def)
      then consider "b \<le> 236" | "b = 237" "b1 < 160" | "238 \<le> b" by linarith
      then show ?thesis using 3 c unfolding scalar_def is_surrogate_def
        by cases arith+
    qed
    with 3 s show ?thesis
      by (auto simp: utf8_step_def split: list.splits)
  next
    case 4
    have "scalar ((b - 240) * 262144 + (b1 - 128) * 4096 + (b2 - 128) * 64 + (b3 - 128))"
      if "second_ok b b1" "cont b2" "cont b3" for b1 b2 b3
    proof -
      from that 4 have c: "128 \<le> b1" "b1 < 192" "128 \<le> b2" "b2 < 192" "128 \<le> b3" "b3 < 192"
        by (auto simp: second_ok_def cont_def split: if_splits)
      have "b = 244 \<Longrightarrow> b1 < 144" "b = 240 \<Longrightarrow> 144 \<le> b1"
        using that by (simp_all add: second_ok_def)
      then consider "b = 240" "144 \<le> b1" | "241 \<le> b" "b \<le> 243" | "b = 244" "b1 < 144"
        using 4 by linarith
      then show ?thesis using c unfolding scalar_def is_surrogate_def
        by cases arith+
    qed
    with 4 s show ?thesis
      by (auto simp: utf8_step_def split: list.splits)
  next
    case 5
    with s show ?thesis by (simp add: utf8_step_def)
  next
    case 6
    with s show ?thesis by (simp add: utf8_step_def)
  qed
qed

lemma utf8_decode_scalar: "list_all scalar (utf8_decode bs)"
proof (induction bs rule: utf8_decode.induct)
  case 1
  then show ?case by simp
next
  case (2 b bs)
  obtain c n where cn: "utf8_step b bs = (c, n)" by (cases "utf8_step b bs")
  with utf8_step_scalar [of b bs] have "scalar c" by simp
  with 2 cn show ?case by simp
qed

lemma utf8_decode_scalar_set: "x \<in> set (utf8_decode bs) \<Longrightarrow> scalar x"
  using utf8_decode_scalar [of bs] by (simp add: list_all_iff)

lemma unquote_runs_scalar: "list_all scalar s \<Longrightarrow> list_all scalar (unquote_runs s)"
  by (induction s rule: unquote_runs.induct)
     (auto simp: list_all_iff dest: set_dropWhileD utf8_decode_scalar_set)

lemma unquote_scalar: "list_all scalar s \<Longrightarrow> list_all scalar (unquote s)"
  by (simp add: unquote_def unquote_runs_scalar)

lemma unquote_plus_scalar: "list_all scalar s \<Longrightarrow> list_all scalar (unquote_plus s)"
proof -
  assume a: "list_all scalar s"
  have "scalar 32" by (simp add: scalar_def is_surrogate_def)
  with a have "list_all scalar (map (\<lambda>c. if c = 43 then 32 else c) s)"
    by (auto simp: list_all_iff)
  then show ?thesis unfolding unquote_plus_def by (rule unquote_scalar)
qed

lemma quote_scalar: "list_all scalar s \<Longrightarrow> \<exists>q. quote safe s = Inr q"
  by (simp add: quote_ok scalar_iff)

lemma quote_plus_scalar: "list_all scalar s \<Longrightarrow> \<exists>q. quote_plus safe s = Inr q"
  using quote_scalar [of s safe] quote_scalar [of s "safe @ [32]"]
  by (auto simp: quote_plus_def)

lemma quote_chars:
  assumes "quote safe s = Inr q" and "list_all (\<lambda>c. c < 1114112) s" and "c \<in> set q"
  shows "c < 128 \<and> (always_safe c \<or> c \<in> set safe \<or> c = 37)"
proof -
  from quote_Inr [OF assms(1)] have q: "q = quote_from_bytes safe (concat (map utf8_enc s))" by simp
  from quote_from_bytes_chars [OF utf8_bytes [OF assms(2)]] assms(3) show ?thesis
    unfolding q by blast
qed

lemma unquote_plus_quote_plus:
  assumes "quote_plus safe s = Inr q" and "list_all (\<lambda>c. c < 1114112) s"
    and "37 \<notin> set safe" and "43 \<notin> set safe" and "32 \<notin> set safe"
  shows "unquote_plus q = s"
proof (cases "32 \<in> set s")
  case False
  with assms(1) have q: "quote safe s = Inr q" by (simp add: quote_plus_def)
  have "43 \<notin> set q"
    using quote_chars [OF q assms(2), of 43] assms(4)
    by (auto simp: always_safe_def is_ascii_alpha_def is_digit_def)
  then have "map (\<lambda>c. if c = 43 then 32 else c) q = q"
    by (induction q) auto
  with unquote_quote [OF q assms(2,3)] show ?thesis by (simp add: unquote_plus_def)
next
  case True
  with assms(1) obtain q' where q': "quote (safe @ [32]) s = Inr q'"
    and q: "q = map (\<lambda>c. if c = 32 then 43 else c) q'"
    by (auto simp: quote_plus_def split: sum.splits)
  have "43 \<notin> set q'"
    using quote_chars [OF q' assms(2), of 43] assms(4)
    by (auto simp: always_safe_def is_ascii_alpha_def is_digit_def)
  then have "map (\<lambda>c. if c = 43 then 32 else c) q = q'"
    unfolding q by (induction q') auto
  moreover have "unquote q' = s"
    using assms(3) by (intro unquote_quote [OF q' assms(2)]) simp
  ultimately show ?thesis by (simp add: unquote_plus_def)
qed

section \<open>Properties of \<open>_safe_filename_from_url\<close>\<close>

text \<open>
  C7.  The steps are the ones of the claim (basename of the URL's path, percent-decoded,
  split into root and extension, \<open>.mid\<close> for a missing extension, the root slugified,
  the extension lower-cased), but the result is not always a safe file name: only the
  root is sanitized.  The URL \<open>https://animezen.net/midis/-..\<close> has root \<open>-.\<close>, whose
  slug is \<open>.\<close>, and extension \<open>.\<close>: its file name is \<open>..\<close>, the parent directory.  The
  URL \<open>https://animezen.net/midis/a.m%00d\<close> has the extension \<open>.m\<close>, NUL, \<open>d\<close>, which is
  kept: its file name contains a NUL character.
\<close>

theorem safe_filename_unsafe:
  "safe_filename_from_url ascii_lib (ustr ''https://animezen.net/midis/-..'') = Inr (ustr ''..'') \<and>
   safe_filename_from_url ascii_lib (ustr ''https://animezen.net/midis/a.m%00d'')
     = Inr (ustr ''a.m'' @ [0] @ ustr ''d'')"
  by (simp add: str_defs utf8_defs quote_defs url_defs slug_defs)

section \<open>Properties of \<open>parse_categories\<close>\<close>

lemma https_const: "ustr ''https'' = [104, 116, 116, 112, 115]"
  by (simp add: ustr_def)

lemma default_scheme_https:
  "filter (\<lambda>c. \<not> unsafe_url_byte c) (str_strip c0_or_space (ustr ''https'')) = ustr ''https''"
  by (simp add: ustr_def str_strip_def str_lstrip_def str_rstrip_def c0_or_space_def unsafe_url_byte_def)

lemma urlsplit_rooted:
  assumes "c \<noteq> 47" and "\<not> unsafe_url_byte c"
  shows "\<exists>x q f. urlsplit U (47 # c # rest) (ustr ''https'') =
           Inr \<lparr>scheme = ustr ''https'', netloc = [], path = 47 # x, query = q, fragment = f\<rparr>"
proof -
  let ?url1 = "47 # c # filter (\<lambda>c. \<not> unsafe_url_byte c) rest"
  have u1: "filter (\<lambda>c. \<not> unsafe_url_byte c) (str_lstrip c0_or_space (47 # c # rest)) = ?url1"
    using assms by (simp add: str_lstrip_def c0_or_space_def unsafe_url_byte_def)
  have ss: "split_scheme (ustr ''https'') ?url1 = (ustr ''https'', ?url1)"
    by (simp add: split_scheme_def is_ascii_alpha_def Let_def)
  have t2: "take 2 ?url1 \<noteq> ustr ''//''"
    using assms by (simp add: ustr_def)
  have bf: "before_first d (47 # y) = 47 # before_first d y" if "d \<noteq> 47" for d y
    using that by (simp add: before_first_def)
  show ?thesis
    unfolding urlsplit_def u1 default_scheme_https
    using t2 by (simp add: ss Let_def checknetloc_def bf del: take_Suc_Cons)
qed

lemma splitparams_rooted: "fst (splitparams (47 # x)) \<noteq> []"
proof (cases "nat (rfind 47 (47 # x))")
  case 0
  then show ?thesis by (simp add: splitparams_def Let_def before_first_def)
next
  case (Suc k)
  then show ?thesis by (simp add: splitparams_def Let_def)
qed

lemma urlparse_rooted:
  assumes "c \<noteq> 47" and "\<not> unsafe_url_byte c"
  shows "\<exists>u. urlparse U (47 # c # rest) (ustr ''https'') = Inr u \<and>
             scheme u = ustr ''https'' \<and> netloc u = [] \<and> path u \<noteq> []"
proof -
  from urlsplit_rooted [OF assms, of U rest]
  obtain x q f where s: "urlsplit U (47 # c # rest) (ustr ''https'') =
      Inr \<lparr>scheme = ustr ''https'', netloc = [], path = 47 # x, query = q, fragment = f\<rparr>"
    by blast
  show ?thesis
    using splitparams_rooted [of x]
    by (cases "splitparams (47 # x)") (simp add: urlparse_def s)
qed

lemma urlparse_base:
  "urlparse U BASE_URL [] =
     Inr \<lparr>scheme = ustr ''https'', netloc = ustr ''animezen.net'', path = [], query = [],
          fragment = [], params = []\<rparr>"
  by (simp add: str_defs url_defs is_ascii_alpha_def is_digit_def)

lemma https_relative: "ustr ''https'' \<in> set uses_relative" "ustr ''https'' \<in> set uses_netloc"
  by (simp_all add: uses_relative_def uses_netloc_def ustr_def)

lemma urlunparse_host:
  "p \<noteq> [] \<Longrightarrow> \<exists>r. urlunparse (ustr ''https'') (ustr ''animezen.net'') p prm q f =
     ustr ''https://animezen.net/'' @ r"
proof -
  assume "p \<noteq> []"
  then obtain a p' where p: "p = a # p'" by (cases p) auto
  have c: "\<exists>r. (if y \<noteq> [] \<and> take 1 y \<noteq> ustr ''/'' then ustr ''/'' @ y else y) = 47 # r"
    if "y \<noteq> []" for y :: str
    using that by (cases y) (auto simp: ustr_def)
  define y where "y = (if prm \<noteq> [] then p @ ustr '';'' @ prm else p)"
  have "y \<noteq> []" using p by (simp add: y_def)
  from c [OF this] obtain r where r: "(if y \<noteq> [] \<and> take 1 y \<noteq> ustr ''/'' then ustr ''/'' @ y else y) = 47 # r"
    by blast
  have n: "ustr ''animezen.net'' \<noteq> []" "ustr ''https'' \<noteq> []" by (simp_all add: ustr_def)
  have "urlunsplit (ustr ''https'') (ustr ''animezen.net'') y q f =
        ustr ''https://animezen.net/'' @ r @ (if q \<noteq> [] then ustr ''?'' @ q else []) @
          (if f \<noteq> [] then ustr ''#'' @ f else [])"
    unfolding urlunsplit_def Let_def using n r by (simp add: ustr_def)
  then show ?thesis by (auto simp: urlunparse_def y_def)
qed

lemma urljoin_rooted:
  assumes "c \<noteq> 47" and "\<not> unsafe_url_byte c"
  shows "\<exists>r. urljoin U BASE_URL (47 # c # rest) = Inr (ustr ''https://animezen.net/'' @ r)"
proof -
  from urlparse_rooted [OF assms, of U rest]
  obtain u where u: "urlparse U (47 # c # rest) (ustr ''https'') = Inr u"
      "scheme u = ustr ''https''" "netloc u = []" "path u \<noteq> []"
    by blast
  have b: "BASE_URL \<noteq> []" by (simp add: BASE_URL_def ustr_def)
  define X where "X = (let base_parts0 = split_on 47 [];
                           base_parts = (if last base_parts0 \<noteq> [] then butlast base_parts0
                                         else base_parts0);
                           segments =
                             (if take 1 (path u) = ustr ''/'' then split_on 47 (path u)
                              else drop_empty_inner (base_parts @ split_on 47 (path u)));
                           resolved0 = resolve_segments [] segments;
                           resolved = (if last segments = ustr ''.'' \<or> last segments = ustr ''..''
                                       then resolved0 @ [[]] else resolved0);
                           joined = join_with (ustr ''/'') resolved
                       in (if joined = [] then ustr ''/'' else joined))"
  have X: "X \<noteq> []" by (simp add: X_def Let_def ustr_def)
  have "urljoin U BASE_URL (47 # c # rest) =
          Inr (urlunparse (ustr ''https'') (ustr ''animezen.net'') X (params u) (query u) (fragment u))"
    using u b https_relative
    by (simp add: urljoin_def urlparse_base Let_def X_def)
  with urlunparse_host [OF X] show ?thesis by metis
qed

lemma urljoin_midis:
  assumes "startswith (ustr ''/midis/'') h"
  shows "\<exists>r. urljoin U BASE_URL h = Inr (ustr ''https://animezen.net/'' @ r)"
proof -
  from assms obtain rest where "h = 47 # 109 # rest"
    by (cases h; cases "tl h") (auto simp: startswith_def ustr_def)
  then show ?thesis
    using urljoin_rooted [of 109 U rest] by (simp add: unsafe_url_byte_def)
qed

lemma categories_loop_entries:
  "\<exists>cats. categories_loop U hs = Inr cats \<and> list_all2 (category_of U) (filter category_href hs) cats"
proof (induction hs)
  case Nil
  then show ?case by simp
next
  case (Cons h hs)
  then obtain cats where cats: "categories_loop U hs = Inr cats"
      "list_all2 (category_of U) (filter category_href hs) cats"
    by blast
  show ?case
  proof (cases "category_href h")
    case False
    then have "categories_loop U (h # hs) = categories_loop U hs"
      by (auto simp: category_href_def)
    with cats False show ?thesis by simp
  next
    case True
    then have sw: "startswith (ustr ''/midis/'') h" and nm: "\<not> search_midi h"
      by (simp_all add: category_href_def)
    from sw have ne: "h \<noteq> ustr ''/midis''" by (auto simp: startswith_def ustr_def)
    from urljoin_midis [OF sw, of U] obtain r where
      r: "urljoin U BASE_URL h = Inr (ustr ''https://animezen.net/'' @ r)" by blast
    have "category_of U h \<lparr>cat_name = category_name_of h, cat_url = ustr ''https://animezen.net/'' @ r\<rparr>"
      by (simp add: category_of_def r startswith_def)
    with cats True sw nm ne r show ?thesis by simp
  qed
qed

text \<open>
  C8, as amended.  For every index HTML \<open>parse_categories\<close> returns a list, one entry for
  each distinct \<open>href\<close> value that begins with \<open>/midis/\<close> and does not match
  \<open>\.(mid|midi)(\?|$)\<close>, in the sorted order of these hrefs (duplicates are removed
  among the href strings, not among the resolved URLs); the bare index path \<open>/midis\<close> is
  not among them.  The url of an entry is \<open>urljoin(BASE_URL, href)\<close>: it is absolute,
  beginning with \<open>https://animezen.net/\<close>, and it is not percent-encoded.
\<close>

theorem parse_categories_entries:
  "\<exists>hrefs cats.
     parse_categories U index_html = Inr cats \<and>
     list_all2 (category_of U) hrefs cats \<and>
     sorted hrefs \<and> distinct hrefs \<and>
     set hrefs = {h \<in> set (findall_href index_html). category_href h} \<and>
     ustr ''/midis'' \<notin> set hrefs"
proof -
  let ?all = "sort (remdups (findall_href index_html))"
  from categories_loop_entries [of U ?all] obtain cats where
    "categories_loop U ?all = Inr cats" "list_all2 (category_of U) (filter category_href ?all) cats"
    by blast
  moreover have "sorted (filter category_href ?all)" by (rule sorted_wrt_filter) simp
  moreover have "distinct (filter category_href ?all)" by simp
  moreover have "set (filter category_href ?all) = {h \<in> set (findall_href index_html). category_href h}"
    by auto
  moreover have "\<not> category_href (ustr ''/midis'')"
    by (simp add: category_href_def startswith_def ustr_def)
  ultimately show ?thesis unfolding parse_categories_def by blast
qed

text \<open>Index HTML with \<open>href="/midis/evangelion"\<close>, \<open>href="/midis/boo.mid"\<close> and
  \<open>href="/midis"\<close> yields exactly one entry, \<open>evangelion\<close>.\<close>

theorem parse_categories_entries_witness:
  "parse_categories ascii_lib
     (ustr ''<a href=\"/midis/evangelion\">E</a> <a href=\"/midis/boo.mid\">b</a> <a href=\"/midis\">i</a>'')
   = Inr [\<lparr>cat_name = ustr ''evangelion'', cat_url = ustr ''https://animezen.net/midis/evangelion''\<rparr>]"
proof -
  have "parse_categories ascii_lib
     (ustr ''<a href=\"/midis/evangelion\">E</a> <a href=\"/midis/boo.mid\">b</a> <a href=\"/midis\">i</a>'')
   = Inr [\<lparr>cat_name = ustr ''evangelion'', cat_url = ustr ''https://animezen.net/midis/evangelion''\<rparr>]"
    by (simp add: str_defs utf8_defs quote_defs url_defs regex_defs parse_defs)
  with parse_categories_entries [of ascii_lib
     "ustr ''<a href=\"/midis/evangelion\">E</a> <a href=\"/midis/boo.mid\">b</a> <a href=\"/midis\">i</a>''"]
  show ?thesis by blast
qed

text \<open>
  C8 as stated fails: \<open>/midis/a\<close> and \<open>/midis/./a\<close> resolve to the same URL and give two
  entries, and the url of \<open>/midis/a b\<close> keeps its space, while \<open>normalize_url\<close> would
  encode it.
\<close>

theorem parse_categories_counterexample:
  "parse_categories ascii_lib
     (ustr ''<a href=\"/midis/a\">1</a><a href=\"/midis/./a\">2</a><a href=\"/midis/a b\">3</a>'')
   = Inr [\<lparr>cat_name = ustr ''./a'', cat_url = ustr ''https://animezen.net/midis/a''\<rparr>,
          \<lparr>cat_name = ustr ''a'', cat_url = ustr ''https://animezen.net/midis/a''\<rparr>,
          \<lparr>cat_name = ustr ''a b'', cat_url = ustr ''https://animezen.net/midis/a b''\<rparr>] \<and>
   normalize_url ascii_lib (ustr ''https://animezen.net/midis/a b'')
   = Inr (ustr ''https://animezen.net/midis/a%20b'')"
  by (simp add: str_defs utf8_defs quote_defs url_defs regex_defs parse_defs)

section \<open>Properties of \<open>parse_midis\<close>\<close>








end
